theory Spec2Isabelle
  imports Main "HOL-Library.Sublist"
begin

section \<open>JavaScript primitives used by \<open>src/index.ts\<close>\<close>

text \<open>
  \<open>String.prototype.startsWith\<close>, and \<open>Array.prototype.slice(i, j)\<close> for
  \<open>0 \<le> i \<le> j\<close> (the only way the source calls it): an end past the array is clamped.
\<close>

definition startsWith :: "string \<Rightarrow> string \<Rightarrow> bool" where
  "startsWith s p = (take (length p) s = p)"

definition slice :: "'a list \<Rightarrow> nat \<Rightarrow> nat \<Rightarrow> 'a list" where
  "slice xs i j = take (j - i) (drop i xs)"

text \<open>
  \<open>parseInt(string, radix)\<close> as ECMAScript defines it: leading white space is skipped, a
  sign is read, a radix of 0 (the value of a missing radix) means 10 with a \<open>0x\<close> prefix
  switching to 16, and the longest prefix of digits of the radix is the value; no digit
  at all is NaN, here \<open>None\<close>. The result is the exact integer (a JavaScript number is a
  double, exact up to \<open>2^53\<close>). Only ASCII white space is modelled.
\<close>

definition isWhiteSpace :: "char \<Rightarrow> bool" where
  "isWhiteSpace c = (of_char c \<in> {9, 10, 11, 12, 13, 32 :: nat})"

definition digitValue :: "char \<Rightarrow> nat option" where
  "digitValue c =
     (let n = of_char c :: nat in
      if 48 \<le> n \<and> n \<le> 57 then Some (n - 48)
      else if 97 \<le> n \<and> n \<le> 122 then Some (n - 87)
      else if 65 \<le> n \<and> n \<le> 90 then Some (n - 55)
      else None)"

fun radixDigits :: "nat \<Rightarrow> string \<Rightarrow> nat list" where
  "radixDigits R [] = []"
| "radixDigits R (c # cs) =
     (case digitValue c of
        None \<Rightarrow> []
      | Some d \<Rightarrow> if d < R then d # radixDigits R cs else [])"

definition mathInt :: "nat \<Rightarrow> nat list \<Rightarrow> nat" where
  "mathInt R ds = foldl (\<lambda>acc d. acc * R + d) 0 ds"

definition parseInt :: "string \<Rightarrow> nat \<Rightarrow> int option" where
  "parseInt inputString radix =
     (let S = dropWhile isWhiteSpace inputString;
          negative = startsWith S ''-'';
          S1 = (if startsWith S ''-'' \<or> startsWith S ''+'' then drop 1 S else S);
          stripPrefix = (radix = 0 \<or> radix = 16);
          R0 = (if radix = 0 then 10 else radix);
          hex = (stripPrefix \<and> (startsWith S1 ''0x'' \<or> startsWith S1 ''0X''));
          S2 = (if hex then drop 2 S1 else S1);
          R = (if hex then 16 else R0);
          Z = radixDigits R S2
      in if radix \<noteq> 0 \<and> (radix < 2 \<or> 36 < radix) then None
         else if Z = [] then None
         else Some (if negative then - int (mathInt R Z) else int (mathInt R Z)))"

text \<open>\<open>x || 0\<close> on the result of \<open>parseInt\<close>: NaN and 0 are falsy.\<close>

definition orZero :: "int option \<Rightarrow> int" where
  "orZero x = (case x of None \<Rightarrow> 0 | Some n \<Rightarrow> n)"

section \<open>The identifier parser \<open>extractUsername\<close>\<close>

text \<open>
  The regular expressions of the source are built from literals, options, alternatives,
  sequences and character classes repeated a fixed number of times or at least once.
  \<open>run r s\<close> lists, in the order a backtracking matcher tries them (greedy first), the
  rest of \<open>s\<close> after each way \<open>r\<close> can match a prefix of \<open>s\<close>.
\<close>

datatype regex =
    Lit string
  | Opt regex
  | Alt regex regex
  | Seq regex regex
  | Rep "char \<Rightarrow> bool" nat
  | Plus "char \<Rightarrow> bool"

fun run :: "regex \<Rightarrow> string \<Rightarrow> string list" where
  "run (Lit l) s = (if startsWith s l then [drop (length l) s] else [])"
| "run (Opt r) s = run r s @ [s]"
| "run (Alt a b) s = run a s @ run b s"
| "run (Seq a b) s = concat (map (run b) (run a s))"
| "run (Rep p n) s = (if n \<le> length s \<and> list_all p (take n s) then [drop n s] else [])"
| "run (Plus p) s = map (\<lambda>k. drop k s) (rev [1 ..< Suc (length (takeWhile p s))])"

text \<open>The classes \<open>\w\<close>, \<open>[\w-]\<close>, \<open>[AQgw]\<close> and \<open>[\w@-]\<close>.\<close>

definition wordChar :: "char \<Rightarrow> bool" where
  "wordChar c =
     (let n = of_char c :: nat in
      (97 \<le> n \<and> n \<le> 122) \<or> (65 \<le> n \<and> n \<le> 90) \<or> (48 \<le> n \<and> n \<le> 57) \<or> n = 95)"

definition idChar :: "char \<Rightarrow> bool" where
  "idChar c = (wordChar c \<or> c = CHR ''-'')"

definition idLastChar :: "char \<Rightarrow> bool" where
  "idLastChar c = (c \<in> set ''AQgw'')"

definition handleChar :: "char \<Rightarrow> bool" where
  "handleChar c = (wordChar c \<or> c = CHR ''@'' \<or> c = CHR ''-'')"

text \<open>
  \<open>urlRegex\<close> is \<open>^https?:\/\/(www\.)?youtube\.com\/(G)$\<close> with the second group
  \<open>G = channel\/UC[\w-]{21}[AQgw]|(c\/|user\/)?[\w@-]+\<close>. It is kept in two parts: what
  stands before group 2, and group 2 itself.
\<close>

definition urlRegexHead :: regex where
  "urlRegexHead =
     Seq (Lit ''http'') (Seq (Opt (Lit ''s'')) (Seq (Lit ''://'')
       (Seq (Opt (Lit ''www.'')) (Lit ''youtube.com/''))))"

definition urlRegexGroup2 :: regex where
  "urlRegexGroup2 =
     Alt (Seq (Lit ''channel/UC'') (Seq (Rep idChar 21) (Rep idLastChar 1)))
         (Seq (Opt (Alt (Lit ''c/'') (Lit ''user/''))) (Plus handleChar))"

text \<open>
  \<open>input.match(urlRegex)?.[2]\<close>: the regex is anchored at both ends and group 2 is its
  last part, so in a match group 2 is the whole rest of the input after the head; the
  first rest (in the matcher's order) from which group 2 reaches the end of the input is
  the captured text. No match is \<open>None\<close>.
\<close>

definition matchGroup2 :: "string \<Rightarrow> string option" where
  "matchGroup2 input =
     (case filter (\<lambda>rest. [] \<in> set (run urlRegexGroup2 rest)) (run urlRegexHead input) of
        [] \<Rightarrow> None
      | rest # _ \<Rightarrow> Some rest)"

text \<open>
  \<open>return input.startsWith('@') ? input : (input.match(urlRegex)?.[2] || null)\<close>;
  \<open>|| null\<close> turns an empty capture into null as well.
\<close>

definition extractUsername :: "string \<Rightarrow> string option" where
  "extractUsername input =
     (if startsWith input ''@'' then Some input
      else case matchGroup2 input of
             None \<Rightarrow> None
           | Some g \<Rightarrow> if g = [] then None else Some g)"

text \<open>
  The grammar the parser is meant to recognise, written out directly: a scheme
  \<open>http://\<close> or \<open>https://\<close>, an optional \<open>www.\<close>, the host \<open>youtube.com/\<close>, and a path
  that is either the channel-id form or the handle form.
\<close>

definition urlPath :: "string \<Rightarrow> string option" where
  "urlPath input =
     (if startsWith input ''https://www.youtube.com/'' then Some (drop 24 input)
      else if startsWith input ''https://youtube.com/'' then Some (drop 20 input)
      else if startsWith input ''http://www.youtube.com/'' then Some (drop 23 input)
      else if startsWith input ''http://youtube.com/'' then Some (drop 19 input)
      else None)"

definition channelIdForm :: "string \<Rightarrow> bool" where
  "channelIdForm p =
     (length p = 32 \<and> startsWith p ''channel/UC'' \<and> list_all idChar (take 21 (drop 10 p))
      \<and> idLastChar (p ! 31))"

definition handleToken :: "string \<Rightarrow> bool" where
  "handleToken t = (t \<noteq> [] \<and> list_all handleChar t)"

definition handleForm :: "string \<Rightarrow> bool" where
  "handleForm p =
     (handleToken p
      \<or> (startsWith p ''c/'' \<and> handleToken (drop 2 p))
      \<or> (startsWith p ''user/'' \<and> handleToken (drop 5 p)))"

definition recognizedUrl :: "string \<Rightarrow> bool" where
  "recognizedUrl input =
     (case urlPath input of None \<Rightarrow> False | Some p \<Rightarrow> channelIdForm p \<or> handleForm p)"

section \<open>Tables, upstream responses and request state\<close>

text \<open>
  The rows of \<open>src/db/schema.ts\<close> (with the counters of migration 0001). A timestamp is a
  number of seconds; the JSON object of a statistics row is the list of its fields, each
  a string as the provider sends it (\<open>VideoStatisticsResponse\<close>), with distinct keys.
  \<open>VideoStatistics\<close> is the insert type of the statistics table; its generated id is
  left out.
\<close>

type_synonym timestamp = nat

type_synonym json_object = "(string \<times> string) list"

record channel =
  channel_id :: string
  channelName :: string
  thumbnail :: "string option"
  channelUploadID :: string
  channel_followersCount :: int
  channel_viewsCount :: int
  channel_videoCount :: int
  channel_createdAt :: timestamp
  channel_updatedAt :: timestamp

record video =
  video_id :: string
  channelId :: string
  title :: string
  url :: string
  thumbnailUrl :: string
  video_createdAt :: timestamp
  video_updatedAt :: timestamp

record VideoStatistics =
  videoId :: string
  statistics :: json_object
  recordedAt :: timestamp

text \<open>The interfaces \<open>ChannelDetails\<close> and \<open>VideoDetails\<close>; \<open>None\<close> is null or undefined.\<close>

record ChannelDetails =
  uploads :: "string option"
  details_id :: "string option"
  customName :: "string option"
  followersCount :: "int option"
  viewsCount :: "int option"
  videoCount :: "int option"
  thumbnailHighUrl :: "string option"

record VideoDetails =
  details_videoId :: string
  videoTitle :: string
  details_thumbnailUrl :: "string option"

text \<open>
  What the upstream API answers, reduced to the fields the source reads. A counter of a
  channel is an unsigned integer sent as a decimal string, taken here decoded (\<open>Number\<close>
  of such a string is its value), \<open>None\<close> when the field is missing. A missing or empty
  \<open>items\<close> array of a channel answer is the empty list. The body of a statistics answer
  is kept as its \<open>items\<close>, \<open>None\<close> when it has none: that is the body the API sends with
  an error (it carries \<open>error\<close> in place of \<open>items\<close>), which \<open>fetch\<close> and \<open>json()\<close> hand
  over like any other. A decoded body is taken to be an object, and its \<open>items\<close>, when
  it has any, an array of objects.
\<close>

record youtube_channel =
  yt_id :: string
  yt_customUrl :: string
  yt_uploads :: string
  yt_thumbnailHighUrl :: string
  yt_subscriberCount :: "nat option"
  yt_viewCount :: "nat option"
  yt_videoCount :: "nat option"

record playlist_item =
  item_videoId :: string
  item_title :: string
  item_thumbnailHighUrl :: "string option"

record playlist_page =
  page_items :: "playlist_item list"
  nextPageToken :: "string option"

record video_item =
  item_id :: string
  item_statistics :: json_object

text \<open>
  \<open>await fetch(url)\<close> followed by \<open>await response.json()\<close> either throws or yields the
  decoded body. Reads and writes of the database and calls to the key-value store can
  throw as well; which kinds of them do is part of the environment of a request. A write
  that a constraint of the schema refuses (a unique column, a foreign key, a counter
  beyond the range of its column) is such a throw: the model does not derive it from the
  rows.
\<close>

datatype 'a fetched = Thrown | Data 'a

datatype exception = FetchFailed | DatabaseFailed | CacheFailed | EmptyInsert

datatype operation =
    SelectChannel | SelectChannels | SelectStatistics | SelectRanking
  | UpdateChannel | InsertChannel | InsertVideos | InsertVideoStatistics
  | CacheGet | CachePut | CacheDelete

record environment =
  channelsForHandle :: "string \<Rightarrow> youtube_channel list fetched"
  channelsById :: "string \<Rightarrow> youtube_channel list fetched"
  playlistItems :: "string \<Rightarrow> string option \<Rightarrow> playlist_page fetched"
  videosList :: "string list \<Rightarrow> video_item list option fetched"
  fails :: "operation \<Rightarrow> bool"

text \<open>
  A row of the rollup the \<open>/statistics\<close> endpoint answers and caches, the three tables,
  the key-value store \<open>youtube_cache\<close> (a value with the time it expires), the global
  \<open>totalQuotaUsed\<close> and the console. Of what the program writes to the console the model
  keeps the error lines of the statistics fetch, each with its message and the ids it
  is given.
\<close>

record channelStats =
  stats_channelId :: string
  stats_channelName :: string
  stats_followersCount :: int
  stats_viewsCount :: int
  totalLikes :: int
  totalComments :: int

record state =
  channels :: "channel list"
  videos :: "video list"
  videoStatistics :: "VideoStatistics list"
  youtube_cache :: "string \<rightharpoonup> (channelStats list \<times> timestamp)"
  totalQuotaUsed :: nat
  console :: "(string \<times> string list) list"

text \<open>Truthiness of a string or number that may be null: null, \<open>''\<close> and 0 are falsy.\<close>

definition truthyString :: "string option \<Rightarrow> bool" where
  "truthyString x = (case x of None \<Rightarrow> False | Some s \<Rightarrow> s \<noteq> [])"

definition truthyNumber :: "int option \<Rightarrow> bool" where
  "truthyNumber x = (case x of None \<Rightarrow> False | Some n \<Rightarrow> n \<noteq> 0)"

text \<open>\<open>s || null\<close> for a string and \<open>Number(s) || null\<close> for a counter.\<close>

definition stringOrNull :: "string \<Rightarrow> string option" where
  "stringOrNull s = (if s = [] then None else Some s)"

definition numberOrNull :: "nat option \<Rightarrow> int option" where
  "numberOrNull x = (case x of None \<Rightarrow> None | Some n \<Rightarrow> if n = 0 then None else Some (int n))"

section \<open>Quota accounting\<close>

definition QUOTA_COSTS_channels_list :: nat where
  "QUOTA_COSTS_channels_list = 1"

definition QUOTA_COSTS_playlistItems_list :: nat where
  "QUOTA_COSTS_playlistItems_list = 1"

definition QUOTA_COSTS_videos_list :: nat where
  "QUOTA_COSTS_videos_list = 1"

definition trackQuotaUsage :: "nat \<Rightarrow> state \<Rightarrow> state" where
  "trackQuotaUsage cost st = st\<lparr>totalQuotaUsed := totalQuotaUsed st + cost\<rparr>"

section \<open>The upstream client\<close>

definition nullDetails :: ChannelDetails where
  "nullDetails = \<lparr>uploads = None, details_id = None, customName = None, followersCount = None,
     viewsCount = None, videoCount = None, thumbnailHighUrl = None\<rparr>"

definition getChannelDetailsFromDB :: "string \<Rightarrow> state \<Rightarrow> ChannelDetails option" where
  "getChannelDetailsFromDB cid st =
     (case filter (\<lambda>c. channel_id c = cid) (channels st) of
        [] \<Rightarrow> None
      | existingChannel # _ \<Rightarrow> Some
          \<lparr>uploads = Some (channelUploadID existingChannel),
           details_id = Some (channel_id existingChannel),
           customName = Some (channelName existingChannel),
           followersCount = Some (channel_followersCount existingChannel),
           viewsCount = Some (channel_viewsCount existingChannel),
           videoCount = Some (channel_videoCount existingChannel),
           thumbnailHighUrl = thumbnail existingChannel\<rparr>)"

definition detailsOfItem :: "youtube_channel \<Rightarrow> ChannelDetails" where
  "detailsOfItem item =
     \<lparr>uploads = stringOrNull (yt_uploads item),
      details_id = stringOrNull (yt_id item),
      customName = stringOrNull (yt_customUrl item),
      followersCount = numberOrNull (yt_subscriberCount item),
      viewsCount = numberOrNull (yt_viewCount item),
      videoCount = numberOrNull (yt_videoCount item),
      thumbnailHighUrl = stringOrNull (yt_thumbnailHighUrl item)\<rparr>"

text \<open>
  \<open>getUploadsChannelDetail\<close>: a channel stored under the given name as its id is answered
  from the database; otherwise the upstream is asked. The database read stands before
  the \<open>try\<close>, so its failure is thrown on; a failed fetch is caught and answered with
  nulls, uncharged.
\<close>

definition getUploadsChannelDetail ::
  "environment \<Rightarrow> string \<Rightarrow> state \<Rightarrow> exception + (ChannelDetails \<times> state)" where
  "getUploadsChannelDetail env username st =
     (if fails env SelectChannel then Inl DatabaseFailed
      else case getChannelDetailsFromDB username st of
        Some channelDetailsFromDB \<Rightarrow> Inr (channelDetailsFromDB, st)
      | None \<Rightarrow>
          (case channelsForHandle env username of
             Thrown \<Rightarrow> Inr (nullDetails, st)
           | Data items \<Rightarrow>
               Inr (case items of [] \<Rightarrow> nullDetails | item # _ \<Rightarrow> detailsOfItem item,
                    trackQuotaUsage QUOTA_COSTS_channels_list st)))"

definition toVideoDetails :: "playlist_item \<Rightarrow> VideoDetails" where
  "toVideoDetails item =
     \<lparr>details_videoId = item_videoId item, videoTitle = item_title item,
      details_thumbnailUrl = item_thumbnailHighUrl item\<rparr>"

text \<open>
  \<open>getPlaylistVideos\<close>: the \<open>do ... while (nextPageToken)\<close> loop. A page is charged once
  its body is decoded; a failed fetch is not caught here. The loop ends only when a page
  carries no token (or an empty one), so it need not end: not returning is \<open>None\<close>.
\<close>

partial_function (option) getPlaylistVideosLoop ::
  "environment \<Rightarrow> string \<Rightarrow> string option \<Rightarrow> VideoDetails list \<Rightarrow> state
     \<Rightarrow> ((exception + VideoDetails list) \<times> state) option" where
  "getPlaylistVideosLoop env playlistId pageToken vids st =
     (case playlistItems env playlistId pageToken of
        Thrown \<Rightarrow> Some (Inl FetchFailed, st)
      | Data page \<Rightarrow>
          if truthyString (nextPageToken page)
          then getPlaylistVideosLoop env playlistId (nextPageToken page)
                 (vids @ map toVideoDetails (page_items page))
                 (trackQuotaUsage QUOTA_COSTS_playlistItems_list st)
          else Some (Inr (vids @ map toVideoDetails (page_items page)),
                     trackQuotaUsage QUOTA_COSTS_playlistItems_list st))"

definition getPlaylistVideos ::
  "environment \<Rightarrow> string \<Rightarrow> state \<Rightarrow> ((exception + VideoDetails list) \<times> state) option" where
  "getPlaylistVideos env playlistId st = getPlaylistVideosLoop env playlistId None [] st"

text \<open>
  \<open>Promise.all\<close>: the results in order when every promise is fulfilled, a rejection when
  one is rejected (of the rejections, the model reports the first in list order).
\<close>

fun promiseAll :: "(exception + 'a) list \<Rightarrow> exception + 'a list" where
  "promiseAll [] = Inr []"
| "promiseAll (Inl e # ps) = Inl e"
| "promiseAll (Inr x # ps) = (case promiseAll ps of Inl e \<Rightarrow> Inl e | Inr xs \<Rightarrow> Inr (x # xs))"

text \<open>
  \<open>fetchVideoStatisticsBatch\<close>: every error of the fetch is caught, written to the
  console with the ids of the batch and answered with the empty array, so the promise is
  always fulfilled. A decoded body is charged, and \<open>data.items?.map(...) || []\<close> reads a
  body without \<open>items\<close> as the empty array: that path does not pass the \<open>catch\<close> and
  writes nothing.
\<close>

definition consoleError :: "string \<times> string list \<Rightarrow> state \<Rightarrow> state" where
  "consoleError line st = st\<lparr>console := console st @ [line]\<rparr>"

definition toVideoStatistics :: "timestamp \<Rightarrow> video_item \<Rightarrow> VideoStatistics" where
  "toVideoStatistics now item =
     \<lparr>videoId = item_id item, statistics = item_statistics item, recordedAt = now\<rparr>"

definition fetchVideoStatisticsBatch ::
  "environment \<Rightarrow> timestamp \<Rightarrow> string list \<Rightarrow> state
     \<Rightarrow> (exception + VideoStatistics list) \<times> state" where
  "fetchVideoStatisticsBatch env now videoIds st =
     (case videosList env videoIds of
        Thrown \<Rightarrow> (Inr [], consoleError (''Error fetching video statistics:'', videoIds) st)
      | Data items \<Rightarrow>
          (Inr (case items of None \<Rightarrow> [] | Some found \<Rightarrow> map (toVideoStatistics now) found),
           trackQuotaUsage QUOTA_COSTS_videos_list st))"

text \<open>
  \<open>getVideoStatistics\<close>: the \<open>for (i = 0; i < videoIds.length; i += batchSize)\<close> loop
  slices the ids; the batches are fetched (each charging the shared counter) and the
  results of \<open>Promise.all\<close> are flattened. The requests are under way at once; the model
  takes them one after the other, which fixes the order of the lines on the console and
  nothing else.
\<close>

definition batchSize :: nat where
  "batchSize = 50"

function videoIdBatches :: "nat \<Rightarrow> 'a list \<Rightarrow> 'a list list" where
  "videoIdBatches i videoIds =
     (if i < length videoIds
      then slice videoIds i (i + batchSize) # videoIdBatches (i + batchSize) videoIds
      else [])"
  by pat_completeness auto
termination
  by (relation "measure (\<lambda>(i, videoIds). length videoIds - i)") (auto simp: batchSize_def)

declare videoIdBatches.simps [simp del]

fun runBatches ::
  "environment \<Rightarrow> timestamp \<Rightarrow> string list list \<Rightarrow> state
     \<Rightarrow> (exception + VideoStatistics list) list \<times> state" where
  "runBatches env now [] st = ([], st)"
| "runBatches env now (b # bs) st =
     (case fetchVideoStatisticsBatch env now b st of
        (r, st1) \<Rightarrow> (case runBatches env now bs st1 of (rs, st2) \<Rightarrow> (r # rs, st2)))"

definition getVideoStatistics ::
  "environment \<Rightarrow> timestamp \<Rightarrow> string list \<Rightarrow> state
     \<Rightarrow> (exception + VideoStatistics list) \<times> state" where
  "getVideoStatistics env now videoIds st =
     (case runBatches env now (videoIdBatches 0 videoIds) st of
        (results, st1) \<Rightarrow>
          (case promiseAll results of Inl e \<Rightarrow> Inl e | Inr parts \<Rightarrow> Inr (concat parts), st1))"

text \<open>
  What one batch contributes to the flattened result, and whether its request was
  answered (and so charged), read off the upstream's answer to that batch alone.
\<close>

definition batchStatistics :: "environment \<Rightarrow> timestamp \<Rightarrow> string list \<Rightarrow> VideoStatistics list" where
  "batchStatistics env now videoIds =
     (case videosList env videoIds of
        Thrown \<Rightarrow> []
      | Data None \<Rightarrow> []
      | Data (Some found) \<Rightarrow> map (toVideoStatistics now) found)"

definition answered :: "environment \<Rightarrow> string list \<Rightarrow> bool" where
  "answered env videoIds = (videosList env videoIds \<noteq> Thrown)"

text \<open>
  The two ways a batch can fail: its request (or the decoding of its body) throws, or
  the upstream answers it with a body without \<open>items\<close>. \<open>batchError\<close> is the line the
  \<open>catch\<close> writes for a batch.
\<close>

definition batchError :: "string list \<Rightarrow> string \<times> string list" where
  "batchError videoIds = (''Error fetching video statistics:'', videoIds)"

definition threw :: "environment \<Rightarrow> string list \<Rightarrow> bool" where
  "threw env videoIds = (videosList env videoIds = Thrown)"

definition refused :: "environment \<Rightarrow> string list \<Rightarrow> bool" where
  "refused env videoIds = (videosList env videoIds = Data None)"

section \<open>The snapshot store\<close>

text \<open>
  \<open>insertChannel\<close>: insert, or on a conflict of the id overwrite thumbnail, upload
  playlist and name and touch \<open>updatedAt\<close> (the counters and \<open>createdAt\<close> stay); the
  stored row is returned.
\<close>

definition insertChannel ::
  "environment \<Rightarrow> timestamp \<Rightarrow> string \<Rightarrow> string \<Rightarrow> string \<Rightarrow> int \<Rightarrow> int \<Rightarrow> int \<Rightarrow> string
     \<Rightarrow> state \<Rightarrow> exception + (channel \<times> state)" where
  "insertChannel env now cid channelThumbnail channelUpload followers_count views_count
       video_count name st =
     (if fails env InsertChannel then Inl DatabaseFailed
      else case filter (\<lambda>c. channel_id c = cid) (channels st) of
        [] \<Rightarrow>
          (let newChannel =
             \<lparr>channel_id = cid, channelName = name, thumbnail = Some channelThumbnail,
              channelUploadID = channelUpload, channel_followersCount = followers_count,
              channel_viewsCount = views_count, channel_videoCount = video_count,
              channel_createdAt = now, channel_updatedAt = now\<rparr>
           in Inr (newChannel, st\<lparr>channels := channels st @ [newChannel]\<rparr>))
      | old # _ \<Rightarrow>
          (let newChannel =
             old\<lparr>thumbnail := Some channelThumbnail, channelUploadID := channelUpload,
                 channelName := name, channel_updatedAt := now\<rparr>
           in Inr (newChannel,
                   st\<lparr>channels := map (\<lambda>c. if channel_id c = cid then newChannel else c)
                                      (channels st)\<rparr>)))"

text \<open>
  \<open>insertVideos\<close>: each value is inserted, or on a conflict of the id its title and
  thumbnail are overwritten and \<open>updatedAt\<close> touched.
\<close>

definition upsertVideo :: "timestamp \<Rightarrow> string \<Rightarrow> video list \<Rightarrow> VideoDetails \<Rightarrow> video list" where
  "upsertVideo now cid rows v =
     (let thumb = (case details_thumbnailUrl v of None \<Rightarrow> [] | Some t \<Rightarrow> t) in
      if details_videoId v \<in> set (map video_id rows)
      then map (\<lambda>r. if video_id r = details_videoId v
                      then r\<lparr>title := videoTitle v, thumbnailUrl := thumb,
                             video_updatedAt := now\<rparr>
                      else r) rows
      else rows @
        [\<lparr>video_id = details_videoId v, channelId = cid, title = videoTitle v,
          url = ''https://www.youtube.com/watch?v='' @ details_videoId v,
          thumbnailUrl = thumb, video_createdAt = now, video_updatedAt = now\<rparr>])"

definition insertVideos ::
  "environment \<Rightarrow> timestamp \<Rightarrow> VideoDetails list \<Rightarrow> string \<Rightarrow> state \<Rightarrow> exception + state" where
  "insertVideos env now videoDetails cid st =
     (if fails env InsertVideos then Inl DatabaseFailed
      else Inr (st\<lparr>videos := foldl (upsertVideo now cid) (videos st) videoDetails\<rparr>))"

text \<open>
  \<open>insertVideoStatistics\<close>: a pure append, stamped with the time of the insert; the
  count answered is the length of the input. The query builder refuses an empty list of
  values, so no statistics at all ends in the \<open>catch\<close>, which throws on.
\<close>

definition insertVideoStatistics ::
  "environment \<Rightarrow> timestamp \<Rightarrow> VideoStatistics list \<Rightarrow> state \<Rightarrow> exception + (nat \<times> state)" where
  "insertVideoStatistics env now videoStats st =
     (if videoStats = [] then Inl EmptyInsert
      else if fails env InsertVideoStatistics then Inl DatabaseFailed
      else Inr (length videoStats,
                st\<lparr>videoStatistics :=
                     videoStatistics st @ map (\<lambda>stat. stat\<lparr>recordedAt := now\<rparr>) videoStats\<rparr>))"

section \<open>The ingestion endpoint \<open>/\<close>\<close>

text \<open>
  A response of the endpoint is a text with its status, or the JSON body of status 200
  (its elapsed time and date are left out).
\<close>

record ingest_body =
  insertedCount :: nat
  quotaUsed :: nat
  body_channel :: channel
  body_video :: "VideoStatistics list"

datatype ingest_response = TextResponse nat string | Ingested ingest_body

definition invalidInput :: ingest_response where
  "invalidInput =
     TextResponse 400 ''Invalid input (either a YouTube URL or a username is required)''"

definition internalServerError :: ingest_response where
  "internalServerError = TextResponse 500 ''Internal Server Error''"

text \<open>
  The completeness guard: \<open>!x\<close> of each of the seven fields, so a null, an empty string
  and a zero all fail it.
\<close>

definition completeDetails :: "ChannelDetails \<Rightarrow> bool" where
  "completeDetails d =
     (truthyString (details_id d) \<and> truthyString (customName d)
      \<and> truthyString (thumbnailHighUrl d) \<and> truthyString (uploads d)
      \<and> truthyNumber (followersCount d) \<and> truthyNumber (videoCount d)
      \<and> truthyNumber (viewsCount d))"

text \<open>
  The three writes and the invalidation of the cached rollup. Each write is on its own:
  when a later one throws, the earlier ones stay.
\<close>

definition ingestWrites ::
  "environment \<Rightarrow> timestamp \<Rightarrow> string \<Rightarrow> string \<Rightarrow> string \<Rightarrow> int \<Rightarrow> int \<Rightarrow> int \<Rightarrow> string
     \<Rightarrow> VideoDetails list \<Rightarrow> VideoStatistics list \<Rightarrow> state \<Rightarrow> ingest_response \<times> state" where
  "ingestWrites env now cid thumb upl followers views vcount name vids stats st =
     (case insertChannel env now cid thumb upl followers views vcount name st of
        Inl e \<Rightarrow> (internalServerError, st)
      | Inr (stored, st1) \<Rightarrow>
     (case insertVideos env now vids cid st1 of
        Inl e \<Rightarrow> (internalServerError, st1)
      | Inr st2 \<Rightarrow>
     (case insertVideoStatistics env now stats st2 of
        Inl e \<Rightarrow> (internalServerError, st2)
      | Inr (insertedVideoStatisticsCount, st3) \<Rightarrow>
          if fails env CacheDelete then (internalServerError, st3)
          else
            (let st4 = st3\<lparr>youtube_cache := (youtube_cache st3)(''channelStatistics'' := None)\<rparr>
             in (Ingested \<lparr>insertedCount = insertedVideoStatisticsCount,
                           quotaUsed = totalQuotaUsed st4,
                           body_channel = stored, body_video = stats\<rparr>, st4)))))"

text \<open>What follows the guard: the playlist, the statistics, the writes.\<close>

definition ingestChannel ::
  "environment \<Rightarrow> timestamp \<Rightarrow> string \<Rightarrow> string \<Rightarrow> string \<Rightarrow> int \<Rightarrow> int \<Rightarrow> int \<Rightarrow> string
     \<Rightarrow> state \<Rightarrow> (ingest_response \<times> state) option" where
  "ingestChannel env now cid thumb upl followers views vcount name st =
     (case getPlaylistVideos env upl st of
        None \<Rightarrow> None
      | Some (Inl e, st1) \<Rightarrow> Some (internalServerError, st1)
      | Some (Inr vids, st1) \<Rightarrow>
          if vids = [] then Some (TextResponse 200 ''No videos found in the playlist.'', st1)
          else
            (case getVideoStatistics env now (map details_videoId vids) st1 of
               (Inl e, st2) \<Rightarrow> Some (internalServerError, st2)
             | (Inr stats, st2) \<Rightarrow>
                 Some (ingestWrites env now cid thumb upl followers views vcount name
                         vids stats st2)))"

definition ingestDetails ::
  "environment \<Rightarrow> timestamp \<Rightarrow> ChannelDetails \<Rightarrow> state \<Rightarrow> (ingest_response \<times> state) option" where
  "ingestDetails env now d st =
     (if \<not> completeDetails d then Some (invalidInput, st)
      else case (details_id d, thumbnailHighUrl d, uploads d, customName d) of
        (Some cid, Some thumb, Some upl, Some name) \<Rightarrow>
          (case (followersCount d, viewsCount d, videoCount d) of
             (Some followers, Some views, Some vcount) \<Rightarrow>
               ingestChannel env now cid thumb upl followers views vcount name st
           | _ \<Rightarrow> Some (invalidInput, st))
      | _ \<Rightarrow> Some (invalidInput, st))"

text \<open>
  The handler: the quota is reset first; \<open>channelUrl\<close> is the query parameter \<open>url\<close>.
\<close>

definition ingest ::
  "environment \<Rightarrow> timestamp \<Rightarrow> string option \<Rightarrow> state \<Rightarrow> (ingest_response \<times> state) option" where
  "ingest env now channelUrl st =
     (let st0 = st\<lparr>totalQuotaUsed := 0\<rparr> in
      if \<not> truthyString channelUrl
      then Some (TextResponse 400 ''URL or username is missing'', st0)
      else case extractUsername (case channelUrl of None \<Rightarrow> [] | Some u \<Rightarrow> u) of
        None \<Rightarrow> Some (invalidInput, st0)
      | Some username \<Rightarrow>
          (case getUploadsChannelDetail env username st0 of
             Inl e \<Rightarrow> Some (internalServerError, st0)
           | Inr (d, st1) \<Rightarrow> ingestDetails env now d st1))"

section \<open>The refresh of all channels\<close>

text \<open>
  \<open>refreshChannelDetails\<close>: the fetch and the update stand in a \<open>try\<close> whose \<open>catch\<close>
  logs and throws on; no channel found upstream is a warning, not an error.
\<close>

definition refreshChannelDetails ::
  "environment \<Rightarrow> timestamp \<Rightarrow> string \<Rightarrow> state \<Rightarrow> (exception + unit) \<times> state" where
  "refreshChannelDetails env now cid st =
     (case channelsById env cid of
        Thrown \<Rightarrow> (Inl FetchFailed, st)
      | Data items \<Rightarrow>
          (let st1 = trackQuotaUsage QUOTA_COSTS_channels_list st in
           case items of
             [] \<Rightarrow> (Inr (), st1)
           | item # _ \<Rightarrow>
               if fails env UpdateChannel then (Inl DatabaseFailed, st1)
               else (Inr (),
                     st1\<lparr>channels :=
                          map (\<lambda>c. if channel_id c = cid
                                    then c\<lparr>channelName := yt_customUrl item,
                                           thumbnail := Some (yt_thumbnailHighUrl item),
                                           channelUploadID := yt_uploads item,
                                           channel_updatedAt := now\<rparr>
                                    else c) (channels st1)\<rparr>)))"

text \<open>
  \<open>refreshAllChannelDetails\<close>: one task per channel under \<open>pLimit(5)\<close>, awaited with
  \<open>Promise.all\<close>; on success the list read at the start (id and name of every channel)
  is returned. A rejected task cancels no other task, so the model runs them all, one
  after the other; the limit bounds how many run at once and changes no result.
\<close>

fun refreshEach ::
  "environment \<Rightarrow> timestamp \<Rightarrow> string list \<Rightarrow> state \<Rightarrow> (exception + unit) list \<times> state" where
  "refreshEach env now [] st = ([], st)"
| "refreshEach env now (cid # cids) st =
     (case refreshChannelDetails env now cid st of
        (r, st1) \<Rightarrow> (case refreshEach env now cids st1 of (rs, st2) \<Rightarrow> (r # rs, st2)))"

definition refreshAllChannelDetails ::
  "environment \<Rightarrow> timestamp \<Rightarrow> state \<Rightarrow> (exception + (string \<times> string) list) \<times> state" where
  "refreshAllChannelDetails env now st =
     (if fails env SelectChannels then (Inl DatabaseFailed, st)
      else
        (let allChannels = map (\<lambda>c. (channel_id c, channelName c)) (channels st) in
         case refreshEach env now (map fst allChannels) st of
           (results, st1) \<Rightarrow>
             (case promiseAll results of Inl e \<Rightarrow> Inl e | Inr _ \<Rightarrow> Inr allChannels, st1)))"

text \<open>
  The endpoint \<open>POST /channels/refresh\<close>: status 200 with \<open>quotaUsed\<close> and
  \<open>updatedChannels\<close>, or status 500 with \<open>quotaUsed\<close> when the refresh threw. In the
  source the handler reads the counter as soon as the first task is rejected, while
  other tasks may still run; the model reports the counter after all of them, and no
  property below depends on that number.
\<close>

datatype refresh_response = Refreshed nat "(string \<times> string) list" | RefreshFailed nat

definition answered500 :: "refresh_response \<Rightarrow> bool" where
  "answered500 r = (case r of RefreshFailed q \<Rightarrow> True | Refreshed q cs \<Rightarrow> False)"

definition refreshEndpoint ::
  "environment \<Rightarrow> timestamp \<Rightarrow> state \<Rightarrow> refresh_response \<times> state" where
  "refreshEndpoint env now st =
     (case refreshAllChannelDetails env now (st\<lparr>totalQuotaUsed := 0\<rparr>) of
        (Inl e, st1) \<Rightarrow> (RefreshFailed (totalQuotaUsed st1), st1)
      | (Inr updatedChannels, st1) \<Rightarrow> (Refreshed (totalQuotaUsed st1) updatedChannels, st1))"

section \<open>Runs of the pagination loop\<close>

text \<open>
  \<open>servesPages f token pages\<close>: asked with \<open>token\<close> first and then with the token of each
  page it answers, the upstream \<open>f\<close> answers exactly \<open>pages\<close>, the last of which carries
  no token.
\<close>

fun servesPages ::
  "(string option \<Rightarrow> playlist_page fetched) \<Rightarrow> string option \<Rightarrow> playlist_page list \<Rightarrow> bool" where
  "servesPages f token [] = False"
| "servesPages f token [p] = (f token = Data p \<and> \<not> truthyString (nextPageToken p))"
| "servesPages f token (p # q # ps) =
     (f token = Data p \<and> truthyString (nextPageToken p)
      \<and> servesPages f (nextPageToken p) (q # ps))"

text \<open>
  How the refresh of one channel ends, read off the environment alone: the fetch throws,
  or the update of a channel found upstream throws, or the task is fulfilled.
\<close>

definition refreshOutcome :: "environment \<Rightarrow> string \<Rightarrow> exception + unit" where
  "refreshOutcome env cid =
     (case channelsById env cid of
        Thrown \<Rightarrow> Inl FetchFailed
      | Data items \<Rightarrow>
          if items \<noteq> [] \<and> fails env UpdateChannel then Inl DatabaseFailed else Inr ())"

section \<open>The rollup endpoint \<open>/statistics\<close>\<close>

text \<open>
  A left join keeps every left row: with each right row that satisfies the condition,
  or once with null when none does.
\<close>

definition leftJoin :: "('a \<Rightarrow> 'b \<Rightarrow> bool) \<Rightarrow> 'a list \<Rightarrow> 'b list \<Rightarrow> ('a \<times> 'b option) list" where
  "leftJoin on ls rs =
     concat (map (\<lambda>l. case filter (on l) rs of
                          [] \<Rightarrow> [(l, None)]
                        | m # ms \<Rightarrow> map (\<lambda>r. (l, Some r)) (m # ms)) ls)"

text \<open>
  The query of the endpoint: channels left-joined with their videos, left-joined with
  the statistics rows of each video, all of them. (SQL fixes no order of the rows; the
  sums below do not depend on it.)
\<close>

record statistics_row =
  row_channelId :: string
  row_channelName :: string
  row_followersCount :: int
  row_viewsCount :: int
  row_videoId :: "string option"
  row_statistics :: "json_object option"

definition allData :: "state \<Rightarrow> statistics_row list" where
  "allData st =
     map (\<lambda>((c, v), s).
            \<lparr>row_channelId = channel_id c, row_channelName = channelName c,
             row_followersCount = channel_followersCount c,
             row_viewsCount = channel_viewsCount c,
             row_videoId = map_option video_id v,
             row_statistics = map_option statistics s\<rparr>)
       (leftJoin (\<lambda>(c, v) s. case v of None \<Rightarrow> False | Some v' \<Rightarrow> videoId s = video_id v')
          (leftJoin (\<lambda>c v. channelId v = channel_id c) (channels st) (videos st))
          (videoStatistics st))"

text \<open>
  \<open>parseInt(stats.field) || 0\<close>: a missing field reads as \<open>undefined\<close>, which parses to
  NaN.
\<close>

definition statValue :: "json_object \<Rightarrow> string \<Rightarrow> int" where
  "statValue stats field =
     orZero (case map_of stats field of None \<Rightarrow> None | Some s \<Rightarrow> parseInt s 0)"

text \<open>
  The body of \<open>allData.forEach\<close> on the \<open>Map\<close>, kept as the list of its entries in
  insertion order: a row without channel id is skipped, a first row of a channel adds
  its entry with zero sums, and a row with statistics adds to both sums.
\<close>

definition addRow ::
  "(string \<times> channelStats) list \<Rightarrow> statistics_row \<Rightarrow> (string \<times> channelStats) list" where
  "addRow m row =
     (if row_channelId row = [] then m
      else
        (let m1 =
           (if row_channelId row \<in> set (map fst m) then m
            else m @ [(row_channelId row,
                       \<lparr>stats_channelId = row_channelId row,
                        stats_channelName = row_channelName row,
                        stats_followersCount = row_followersCount row,
                        stats_viewsCount = row_viewsCount row,
                        totalLikes = 0, totalComments = 0\<rparr>)])
         in case row_statistics row of
              None \<Rightarrow> m1
            | Some stats \<Rightarrow>
                map (\<lambda>(k, channelStats).
                       if k = row_channelId row
                       then (k, channelStats
                               \<lparr>totalLikes := totalLikes channelStats + statValue stats ''likeCount'',
                                totalComments :=
                                  totalComments channelStats + statValue stats ''commentCount''\<rparr>)
                       else (k, channelStats)) m1))"

definition channelStatistics :: "state \<Rightarrow> channelStats list" where
  "channelStatistics st = map snd (foldl addRow [] (allData st))"

text \<open>
  The key-value store answers a key with its value until the value expires. The
  endpoint answers what is cached under \<open>channelStatistics\<close> with source \<open>cache\<close>;
  otherwise it computes the rollup, stores it for 3600 seconds and answers it with
  source \<open>database\<close>. Any throw is answered with status 500.
\<close>

definition cacheGet :: "(string \<rightharpoonup> ('v \<times> timestamp)) \<Rightarrow> string \<Rightarrow> timestamp \<Rightarrow> 'v option" where
  "cacheGet kv key now =
     (case kv key of
        None \<Rightarrow> None
      | Some (v, expires) \<Rightarrow> if now < expires then Some v else None)"

datatype statistics_response = StatisticsOk "channelStats list" string | StatisticsFailed

definition getStatistics ::
  "environment \<Rightarrow> timestamp \<Rightarrow> state \<Rightarrow> statistics_response \<times> state" where
  "getStatistics env now st =
     (if fails env CacheGet then (StatisticsFailed, st)
      else case cacheGet (youtube_cache st) ''channelStatistics'' now of
        Some cachedData \<Rightarrow> (StatisticsOk cachedData ''cache'', st)
      | None \<Rightarrow>
          if fails env SelectStatistics \<or> fails env CachePut then (StatisticsFailed, st)
          else (StatisticsOk (channelStatistics st) ''database'',
                st\<lparr>youtube_cache :=
                     (youtube_cache st)(''channelStatistics'' \<mapsto>
                        (channelStatistics st, now + 3600))\<rparr>))"

text \<open>The answers to a sequence of rollup requests, each with its environment and time.\<close>

fun readRollups :: "(environment \<times> timestamp) list \<Rightarrow> state \<Rightarrow> statistics_response list" where
  "readRollups [] st = []"
| "readRollups ((env, now) # reqs) st =
     (case getStatistics env now st of (r, st1) \<Rightarrow> r # readRollups reqs st1)"

section \<open>The ranking queries\<close>

text \<open>
  The subquery \<open>latestVideoStatistics\<close>: the statistics rows grouped by video id, each
  group with the maximum of its \<open>recordedAt\<close>.
\<close>

definition latestRecordedAt :: "VideoStatistics list \<Rightarrow> string \<Rightarrow> timestamp" where
  "latestRecordedAt rows v = foldr max (map recordedAt (filter (\<lambda>s. videoId s = v) rows)) 0"

definition latestVideoStatistics :: "VideoStatistics list \<Rightarrow> (string \<times> timestamp) list" where
  "latestVideoStatistics rows =
     map (\<lambda>v. (v, latestRecordedAt rows v)) (remdups (map videoId rows))"

text \<open>An SQL equality is true only between two values that are not null.\<close>

definition sqlEq :: "'a option \<Rightarrow> 'a option \<Rightarrow> bool" where
  "sqlEq x y = (case (x, y) of (Some a, Some b) \<Rightarrow> a = b | _ \<Rightarrow> False)"

text \<open>
  The \<open>FROM\<close> and \<open>WHERE\<close> of the ranking queries: videos left-joined with their
  statistics rows, with the latest row of the same video and time, and with their
  channel; kept are the rows whose statistics row equals, in video and time, the joined
  latest row.
\<close>

type_synonym ranking_row =
  "((video \<times> VideoStatistics option) \<times> (string \<times> timestamp) option) \<times> channel option"

definition isLatest :: "VideoStatistics option \<Rightarrow> (string \<times> timestamp) option \<Rightarrow> bool" where
  "isLatest s l =
     (sqlEq (map_option videoId s) (map_option fst l)
      \<and> sqlEq (map_option recordedAt s) (map_option snd l))"

definition rankingRows :: "state \<Rightarrow> ranking_row list" where
  "rankingRows st =
     filter (\<lambda>((vs, l), c). isLatest (snd vs) l)
       (leftJoin (\<lambda>((v, s), l) c. channelId v = channel_id c)
          (leftJoin (\<lambda>(v, s) l. isLatest s (Some l))
             (leftJoin (\<lambda>v s. video_id v = videoId s) (videos st) (videoStatistics st))
             (latestVideoStatistics (videoStatistics st)))
          (channels st))"

text \<open>
  \<open>COALESCE(CAST(statistics->>'field' AS INTEGER), 0)\<close>: a missing field is null and
  gives 0; a text that the database does not accept as an integer makes the query fail.
  The cast itself is the database's, and a parameter here: \<open>None\<close> is its error.
\<close>

definition metric :: "(string \<Rightarrow> int option) \<Rightarrow> string \<Rightarrow> VideoStatistics option \<Rightarrow> int option" where
  "metric cast field s =
     (case s of
        None \<Rightarrow> Some 0
      | Some row \<Rightarrow> (case map_of (statistics row) field of None \<Rightarrow> Some 0 | Some txt \<Rightarrow> cast txt))"

record ranked =
  ranked_videoId :: string
  ranked_channelName :: "string option"
  ranked_title :: string
  ranked_value :: int

definition selectRanked ::
  "(string \<Rightarrow> int option) \<Rightarrow> string \<Rightarrow> ranking_row \<Rightarrow> ranked option" where
  "selectRanked cast field r =
     (case r of (((v, s), l), c) \<Rightarrow>
        map_option (\<lambda>x. \<lparr>ranked_videoId = video_id v, ranked_channelName = map_option channelName c,
                         ranked_title = title v, ranked_value = x\<rparr>)
          (metric cast field s))"

text \<open>
  The three top-N endpoints: the selected rows ordered by the value, largest first, and
  cut at the limit. (SQL leaves the order among equal values open; the model keeps them
  in the order of the rows.) \<open>limit\<close> is the limit the query runs with.
\<close>

definition topVideos ::
  "environment \<Rightarrow> (string \<Rightarrow> int option) \<Rightarrow> string \<Rightarrow> nat \<Rightarrow> state \<Rightarrow> exception + ranked list" where
  "topVideos env cast field limit st =
     (if fails env SelectRanking then Inl DatabaseFailed
      else case those (map (selectRanked cast field) (rankingRows st)) of
        None \<Rightarrow> Inl DatabaseFailed
      | Some rows \<Rightarrow> Inr (take limit (sort_key (\<lambda>r. - ranked_value r) rows)))"

definition topViews :: "environment \<Rightarrow> (string \<Rightarrow> int option) \<Rightarrow> nat \<Rightarrow> state \<Rightarrow> exception + ranked list" where
  "topViews env cast limit st = topVideos env cast ''viewCount'' limit st"

definition topLikes :: "environment \<Rightarrow> (string \<Rightarrow> int option) \<Rightarrow> nat \<Rightarrow> state \<Rightarrow> exception + ranked list" where
  "topLikes env cast limit st = topVideos env cast ''likeCount'' limit st"

definition topComments :: "environment \<Rightarrow> (string \<Rightarrow> int option) \<Rightarrow> nat \<Rightarrow> state \<Rightarrow> exception + ranked list" where
  "topComments env cast limit st = topVideos env cast ''commentCount'' limit st"

text \<open>
  \<open>/videos/top-channel-views\<close>: the same rows with the channel id of the video, ordered
  by channel id and then by views, largest first; the \<open>reduce\<close> keeps the first row of
  each channel id. The order of text is the database's, a parameter here (a key per
  channel id). The \<open>reduce\<close> collects into an object: its values come in the order of
  insertion for keys that are not array indices, and a channel id that names a property
  every object has would be taken as seen; channel ids are taken to be neither.
\<close>

record channel_ranked =
  top_channelId :: string
  top_channelName :: "string option"
  top_videoId :: string
  top_title :: string
  top_views :: int

definition selectChannelRanked ::
  "(string \<Rightarrow> int option) \<Rightarrow> ranking_row \<Rightarrow> channel_ranked option" where
  "selectChannelRanked cast r =
     (case r of (((v, s), l), c) \<Rightarrow>
        map_option (\<lambda>x. \<lparr>top_channelId = channelId v, top_channelName = map_option channelName c,
                         top_videoId = video_id v, top_title = title v, top_views = x\<rparr>)
          (metric cast ''viewCount'' s))"

definition keepFirst :: "channel_ranked list \<Rightarrow> channel_ranked \<Rightarrow> channel_ranked list" where
  "keepFirst acc row =
     (if top_channelId row \<in> set (map top_channelId acc) then acc else acc @ [row])"

definition topChannelViews ::
  "environment \<Rightarrow> (string \<Rightarrow> int option) \<Rightarrow> (string \<Rightarrow> nat) \<Rightarrow> state
     \<Rightarrow> exception + channel_ranked list" where
  "topChannelViews env cast collate st =
     (if fails env SelectRanking then Inl DatabaseFailed
      else case those (map (selectChannelRanked cast) (rankingRows st)) of
        None \<Rightarrow> Inl DatabaseFailed
      | Some rows \<Rightarrow>
          Inr (foldl keepFirst []
                 (sort_key (\<lambda>r. collate (top_channelId r))
                    (sort_key (\<lambda>r. - top_views r) rows))))"

text \<open>The decimal integers of 32 bits, the part of the database's cast used in examples.\<close>

definition decimalInteger :: "string \<Rightarrow> int option" where
  "decimalInteger txt =
     (case parseInt txt 10 of
        None \<Rightarrow> None
      | Some n \<Rightarrow>
          if list_all (\<lambda>c. c \<in> set ''0123456789'') txt \<and> n < 2147483648 then Some n else None)"

text \<open>
  Two states with the same tables and the same cache: they differ in the quota and the
  console only.
\<close>

definition sameStore :: "state \<Rightarrow> state \<Rightarrow> bool" where
  "sameStore st st' =
     (channels st' = channels st \<and> videos st' = videos st
      \<and> videoStatistics st' = videoStatistics st \<and> youtube_cache st' = youtube_cache st)"

text \<open>
  The cache is coherent with the tables when whatever it holds under
  \<open>channelStatistics\<close>, expired or not, is the rollup of the tables as they are.
\<close>

definition coherent :: "state \<Rightarrow> bool" where
  "coherent st =
     (case youtube_cache st ''channelStatistics'' of
        None \<Rightarrow> True
      | Some (v, expires) \<Rightarrow> v = channelStatistics st)"

text \<open>
  The snapshots of an item and the rows the ranking queries select for it; the
  statistics row of a selected row.
\<close>

definition snapshotsOf :: "state \<Rightarrow> string \<Rightarrow> VideoStatistics list" where
  "snapshotsOf st v = filter (\<lambda>s. videoId s = v) (videoStatistics st)"

definition rowVideo :: "ranking_row \<Rightarrow> video" where
  "rowVideo r = fst (fst (fst r))"

definition rowSnapshot :: "ranking_row \<Rightarrow> VideoStatistics option" where
  "rowSnapshot r = snd (fst (fst r))"

definition selectedFor :: "state \<Rightarrow> string \<Rightarrow> ranking_row list" where
  "selectedFor st v = filter (\<lambda>r. video_id (rowVideo r) = v) (rankingRows st)"

section \<open>Example data\<close>

text \<open>
  An upstream that answers a statistics batch only when it is full, a state with
  nothing stored, and an item of a statistics answer without fields; an upstream that
  answers a statistics batch that is not full with an error body.
\<close>

definition emptyState :: state where
  "emptyState = \<lparr>channels = [], videos = [], videoStatistics = [], youtube_cache = Map.empty,
     totalQuotaUsed = 0, console = []\<rparr>"

definition bareItem :: "string \<Rightarrow> video_item" where
  "bareItem v = \<lparr>item_id = v, item_statistics = []\<rparr>"

definition fullBatchesOnly :: environment where
  "fullBatchesOnly =
     \<lparr>channelsForHandle = (\<lambda>_. Thrown), channelsById = (\<lambda>_. Thrown),
      playlistItems = (\<lambda>_ _. Thrown),
      videosList = (\<lambda>b. if length b = 50 then Data (Some (map bareItem b)) else Thrown),
      fails = (\<lambda>_. False)\<rparr>"

definition errorBodies :: environment where
  "errorBodies =
     \<lparr>channelsForHandle = (\<lambda>_. Thrown), channelsById = (\<lambda>_. Thrown),
      playlistItems = (\<lambda>_ _. Thrown),
      videosList = (\<lambda>b. if length b = 50 then Data (Some (map bareItem b)) else Data None),
      fails = (\<lambda>_. False)\<rparr>"

text \<open>A channel without subscribers, and an upstream that knows only this channel.\<close>

definition zeroSubscribers :: youtube_channel where
  "zeroSubscribers =
     \<lparr>yt_id = ''UC1'', yt_customUrl = ''@quiet'', yt_uploads = ''UU1'',
      yt_thumbnailHighUrl = ''https://img.example/1'', yt_subscriberCount = Some 0,
      yt_viewCount = Some 12, yt_videoCount = Some 3\<rparr>"

definition quietUpstream :: environment where
  "quietUpstream =
     \<lparr>channelsForHandle = (\<lambda>h. if h = ''@quiet'' then Data [zeroSubscribers] else Data []),
      channelsById = (\<lambda>_. Thrown), playlistItems = (\<lambda>_ _. Thrown),
      videosList = (\<lambda>_. Thrown), fails = (\<lambda>_. False)\<rparr>"

text \<open>
  A channel with 110 uploads, listed by the upstream on two pages (60 and 50 items; the
  request asks for pages of at most 50 items, and the code takes whatever a page holds),
  and two upstreams for it: one answers every statistics batch, the other only full
  ones.
\<close>

definition busyChannel :: youtube_channel where
  "busyChannel =
     \<lparr>yt_id = ''UC2'', yt_customUrl = ''@busy'', yt_uploads = ''UU2'',
      yt_thumbnailHighUrl = ''https://img.example/2'', yt_subscriberCount = Some 5,
      yt_viewCount = Some 1200, yt_videoCount = Some 110\<rparr>"

definition numberedId :: "nat \<Rightarrow> string" where
  "numberedId n = CHR ''v'' # replicate n (CHR ''i'')"

definition numberedItem :: "nat \<Rightarrow> playlist_item" where
  "numberedItem n =
     \<lparr>item_videoId = numberedId n, item_title = ''upload'', item_thumbnailHighUrl = None\<rparr>"

definition firstPage :: playlist_page where
  "firstPage = \<lparr>page_items = map numberedItem [0 ..< 60], nextPageToken = Some ''page2''\<rparr>"

definition secondPage :: playlist_page where
  "secondPage = \<lparr>page_items = map numberedItem [60 ..< 110], nextPageToken = None\<rparr>"

definition busyUpstream :: "bool \<Rightarrow> environment" where
  "busyUpstream fullOnly =
     \<lparr>channelsForHandle = (\<lambda>h. if h = ''@busy'' then Data [busyChannel] else Data []),
      channelsById = (\<lambda>_. Thrown),
      playlistItems = (\<lambda>playlist token.
         if playlist = ''UU2'' \<and> token = None then Data firstPage
         else if playlist = ''UU2'' \<and> token = Some ''page2'' then Data secondPage
         else Thrown),
      videosList = (\<lambda>b. if fullOnly \<and> length b \<noteq> 50 then Thrown
                       else Data (Some (map bareItem b))),
      fails = (\<lambda>_. False)\<rparr>"

text \<open>
  Ten stored channels (no two with the same name, playlist or counter), and an upstream
  whose channel lookup by id throws for the given channel id, if any, and answers every
  other id.
\<close>

definition knownChannel :: "string \<Rightarrow> int \<Rightarrow> channel" where
  "knownChannel tag n =
     \<lparr>channel_id = ''UC'' @ tag, channelName = ''@'' @ tag,
      thumbnail = None, channelUploadID = ''UU'' @ tag,
      channel_followersCount = 10 + n, channel_viewsCount = 200 + n,
      channel_videoCount = 100 + n, channel_createdAt = 0, channel_updatedAt = 0\<rparr>"

definition tenChannels :: state where
  "tenChannels =
     emptyState\<lparr>channels :=
       [knownChannel ''a'' 1, knownChannel ''b'' 2, knownChannel ''c'' 3, knownChannel ''d'' 4,
        knownChannel ''e'' 5, knownChannel ''f'' 6, knownChannel ''g'' 7, knownChannel ''h'' 8,
        knownChannel ''i'' 9, knownChannel ''j'' 10]\<rparr>"

definition refreshedItem :: "string \<Rightarrow> youtube_channel" where
  "refreshedItem cid =
     \<lparr>yt_id = cid, yt_customUrl = ''@new-'' @ cid, yt_uploads = ''UU-'' @ cid,
      yt_thumbnailHighUrl = ''https://img.example/'' @ cid, yt_subscriberCount = Some 1,
      yt_viewCount = Some 1, yt_videoCount = Some 1\<rparr>"

definition refreshUpstream :: "string option \<Rightarrow> environment" where
  "refreshUpstream failing =
     \<lparr>channelsForHandle = (\<lambda>_. Thrown),
      channelsById = (\<lambda>cid. if failing = Some cid then Thrown else Data [refreshedItem cid]),
      playlistItems = (\<lambda>_ _. Thrown), videosList = (\<lambda>_. Thrown), fails = (\<lambda>_. False)\<rparr>"

text \<open>
  A state whose cache holds a rollup computed earlier, valid until time 100, over tables
  that are empty.
\<close>

definition staleRollup :: channelStats where
  "staleRollup =
     \<lparr>stats_channelId = ''UC9'', stats_channelName = ''@gone'', stats_followersCount = 4,
      stats_viewsCount = 40, totalLikes = 7, totalComments = 1\<rparr>"

definition cachedState :: state where
  "cachedState =
     emptyState\<lparr>youtube_cache := [''channelStatistics'' \<mapsto> ([staleRollup], 100)]\<rparr>"

text \<open>An environment in which the database read of the rollup request throws.\<close>

definition databaseDown :: environment where
  "databaseDown = quietUpstream\<lparr>fails := (\<lambda>op. op = SelectStatistics)\<rparr>"

text \<open>
  A channel with two uploads on one page, and an upstream that answers every request
  for it; the statistics of each video say 10 likes and 2 comments.
\<close>

definition smallChannel :: youtube_channel where
  "smallChannel =
     \<lparr>yt_id = ''UC3'', yt_customUrl = ''@small'', yt_uploads = ''UU3'',
      yt_thumbnailHighUrl = ''https://img.example/3'', yt_subscriberCount = Some 8,
      yt_viewCount = Some 300, yt_videoCount = Some 2\<rparr>"

definition onlyPage :: playlist_page where
  "onlyPage =
     \<lparr>page_items =
        [\<lparr>item_videoId = ''vidA'', item_title = ''first'', item_thumbnailHighUrl = None\<rparr>,
         \<lparr>item_videoId = ''vidB'', item_title = ''second'',
          item_thumbnailHighUrl = Some ''https://img.example/b''\<rparr>],
      nextPageToken = None\<rparr>"

definition tenLikes :: "string \<Rightarrow> video_item" where
  "tenLikes v =
     \<lparr>item_id = v,
      item_statistics = [(''viewCount'', ''100''), (''likeCount'', ''10''), (''commentCount'', ''2'')]\<rparr>"

definition smallUpstream :: environment where
  "smallUpstream =
     \<lparr>channelsForHandle = (\<lambda>h. if h = ''@small'' then Data [smallChannel] else Data []),
      channelsById = (\<lambda>_. Thrown),
      playlistItems = (\<lambda>playlist token.
         if playlist = ''UU3'' \<and> token = None then Data onlyPage else Thrown),
      videosList = (\<lambda>b. Data (Some (map tenLikes b))),
      fails = (\<lambda>_. False)\<rparr>"

text \<open>
  A channel with one upload, and an upstream that answers every request for it; the
  statistics request is answered with the given fields for each video asked for, or not
  at all.
\<close>

definition historyChannel :: youtube_channel where
  "historyChannel =
     \<lparr>yt_id = ''UC7'', yt_customUrl = ''@history'', yt_uploads = ''UU7'',
      yt_thumbnailHighUrl = ''https://img.example/7'', yt_subscriberCount = Some 5,
      yt_viewCount = Some 50, yt_videoCount = Some 1\<rparr>"

definition historyPage :: playlist_page where
  "historyPage =
     \<lparr>page_items =
        [\<lparr>item_videoId = ''vidH'', item_title = ''recorded twice'',
          item_thumbnailHighUrl = None\<rparr>],
      nextPageToken = None\<rparr>"

definition historyUpstream :: "json_object option \<Rightarrow> environment" where
  "historyUpstream answer =
     \<lparr>channelsForHandle = (\<lambda>h. if h = ''@history'' then Data [historyChannel] else Data []),
      channelsById = (\<lambda>_. Thrown),
      playlistItems = (\<lambda>playlist token.
         if playlist = ''UU7'' \<and> token = None then Data historyPage else Thrown),
      videosList = (\<lambda>b. case answer of
         None \<Rightarrow> Thrown
       | Some f \<Rightarrow> Data (Some (map (\<lambda>v. \<lparr>item_id = v, item_statistics = f\<rparr>) b))),
      fails = (\<lambda>_. False)\<rparr>"

text \<open>
  What the tables hold after this channel was ingested: the channel and its video,
  created and last updated at the given times, and the given statistics rows.
\<close>

definition historyVideo :: "timestamp \<Rightarrow> timestamp \<Rightarrow> video" where
  "historyVideo created updated =
     \<lparr>video_id = ''vidH'', channelId = ''UC7'', title = ''recorded twice'',
      url = ''https://www.youtube.com/watch?v=vidH'', thumbnailUrl = [],
      video_createdAt = created, video_updatedAt = updated\<rparr>"

definition snapshotH :: "json_object \<Rightarrow> timestamp \<Rightarrow> VideoStatistics" where
  "snapshotH counts t = \<lparr>videoId = ''vidH'', statistics = counts, recordedAt = t\<rparr>"

definition recordedState :: "timestamp \<Rightarrow> timestamp \<Rightarrow> nat \<Rightarrow> VideoStatistics list \<Rightarrow> state" where
  "recordedState created updated quota snapshots =
     \<lparr>channels =
        [\<lparr>channel_id = ''UC7'', channelName = ''@history'',
          thumbnail = Some ''https://img.example/7'', channelUploadID = ''UU7'',
          channel_followersCount = 5, channel_viewsCount = 50, channel_videoCount = 1,
          channel_createdAt = created, channel_updatedAt = updated\<rparr>],
      videos = [historyVideo created updated],
      videoStatistics = snapshots, youtube_cache = Map.empty, totalQuotaUsed = quota,
      console = []\<rparr>"

text \<open>
  The channel ingested at time 1, with 100 views, 10 likes and one comment on its video,
  and again at time 3, with 300 views, 30 likes and 3 comments.
\<close>

definition firstCounts :: json_object where
  "firstCounts = [(''viewCount'', ''100''), (''likeCount'', ''10''), (''commentCount'', ''1'')]"

definition secondCounts :: json_object where
  "secondCounts = [(''viewCount'', ''300''), (''likeCount'', ''30''), (''commentCount'', ''3'')]"

definition onceRecorded :: state where
  "onceRecorded = recordedState 1 1 3 [snapshotH firstCounts 1]"

definition historyState :: state where
  "historyState = recordedState 1 3 3 [snapshotH firstCounts 1, snapshotH secondCounts 3]"

text \<open>
  The channel ingested twice at the same time 5, with 7 and then 9 views on its video
  (its likes and comments are not published); and the channel ingested at time 1 while
  the statistics request was not answered.
\<close>

definition tieState :: state where
  "tieState =
     recordedState 5 5 3
       [snapshotH [(''viewCount'', ''7'')] 5, snapshotH [(''viewCount'', ''9'')] 5]"

definition unrecordedState :: state where
  "unrecordedState = (recordedState 1 1 2 [])\<lparr>console := [batchError [''vidH'']]\<rparr>"

section \<open>Properties of the identifier parser\<close>

text \<open>
  The matcher run on the two parts of \<open>urlRegex\<close> is characterised first: the head
  leaves at most one rest, the path of the URL, and group 2 reaches the end of a path
  exactly when the path has the channel-id form or the handle form.
\<close>

lemma startsWith_prefix: "startsWith s p = prefix p s"
  unfolding startsWith_def by (metis prefix_def append_eq_conv_conj take_is_prefix)

lemma startsWith_append: "startsWith s (p @ q) = (startsWith s p \<and> startsWith (drop (length p) s) q)"
  unfolding startsWith_prefix
  by (metis append_eq_conv_conj prefix_def prefixI same_prefix_prefix append_prefixD)

lemma startsWith_append_length: "length p = n \<Longrightarrow> startsWith s (p @ q) = (startsWith s p \<and> startsWith (drop n s) q)"
  using startsWith_append by blast

lemma startsWith_same_head: "startsWith s (c # p) \<Longrightarrow> startsWith s (d # q) \<Longrightarrow> c = d"
  unfolding startsWith_prefix by (cases s) auto

lemma run_Lit: "length l = n \<Longrightarrow> run (Lit l) s = (if startsWith s l then [drop n s] else [])"
  by simp

lemma run_Seq_Lit:
  "length l = n \<Longrightarrow> run (Seq (Lit l) r) s = (if startsWith s l then run r (drop n s) else [])"
  by simp

lemma run_Seq_Opt_Lit:
  "length l = n \<Longrightarrow> run (Seq (Opt (Lit l)) r) s =
     (if startsWith s l then run r (drop n s) else []) @ run r s"
  by simp

lemma run_www:
  "run (Seq (Opt (Lit ''www.'')) (Lit ''youtube.com/'')) v =
     (if startsWith v ''www.youtube.com/'' then [drop 16 v]
      else if startsWith v ''youtube.com/'' then [drop 12 v] else [])"
proof -
  have a: "startsWith v ''www.youtube.com/'' =
      (startsWith v ''www.'' \<and> startsWith (drop 4 v) ''youtube.com/'')"
    using startsWith_append_length [of "''www.''" 4 v "''youtube.com/''"] by simp
  have b: "\<not> (startsWith v ''www.'' \<and> startsWith v ''youtube.com/'')"
    using startsWith_same_head [of v "CHR ''w''" _ "CHR ''y''"] by auto
  have y: "\<And>w. run (Lit ''youtube.com/'') w = (if startsWith w ''youtube.com/'' then [drop 12 w] else [])"
    by (rule run_Lit) simp
  have "run (Seq (Opt (Lit ''www.'')) (Lit ''youtube.com/'')) v =
      (if startsWith v ''www.'' then run (Lit ''youtube.com/'') (drop 4 v) else [])
        @ run (Lit ''youtube.com/'') v"
    by (rule run_Seq_Opt_Lit) simp
  then show ?thesis unfolding y using b by (simp add: a)
qed

lemma run_colon:
  "run (Seq (Lit ''://'') (Seq (Opt (Lit ''www.'')) (Lit ''youtube.com/''))) u =
     (if startsWith u ''://www.youtube.com/'' then [drop 19 u]
      else if startsWith u ''://youtube.com/'' then [drop 15 u] else [])"
proof -
  have a: "startsWith u ''://www.youtube.com/'' =
      (startsWith u ''://'' \<and> startsWith (drop 3 u) ''www.youtube.com/'')"
    using startsWith_append_length [of "''://''" 3 u "''www.youtube.com/''"] by simp
  have b: "startsWith u ''://youtube.com/'' =
      (startsWith u ''://'' \<and> startsWith (drop 3 u) ''youtube.com/'')"
    using startsWith_append_length [of "''://''" 3 u "''youtube.com/''"] by simp
  have "run (Seq (Lit ''://'') (Seq (Opt (Lit ''www.'')) (Lit ''youtube.com/''))) u =
      (if startsWith u ''://'' then run (Seq (Opt (Lit ''www.'')) (Lit ''youtube.com/'')) (drop 3 u) else [])"
    by (rule run_Seq_Lit) simp
  then show ?thesis unfolding run_www by (simp add: a b)
qed

lemma if_append_chain:
  "\<not> (A \<and> C1) \<Longrightarrow> \<not> (A \<and> C2) \<Longrightarrow>
   (if A then (if B1 then [x] else if B2 then [y] else []) else [])
     @ (if C1 then [z] else if C2 then [w] else [])
   = (if A \<and> B1 then [x] else if A \<and> B2 then [y]
      else if C1 then [z] else if C2 then [w] else [])"
  by auto

lemma run_s:
  "run (Seq (Opt (Lit ''s'')) (Seq (Lit ''://'') (Seq (Opt (Lit ''www.'')) (Lit ''youtube.com/'')))) t =
     (if startsWith t ''s://www.youtube.com/'' then [drop 20 t]
      else if startsWith t ''s://youtube.com/'' then [drop 16 t]
      else if startsWith t ''://www.youtube.com/'' then [drop 19 t]
      else if startsWith t ''://youtube.com/'' then [drop 15 t] else [])"
proof -
  let ?X = "Seq (Lit ''://'') (Seq (Opt (Lit ''www.'')) (Lit ''youtube.com/''))"
  have a: "startsWith t ''s://www.youtube.com/'' =
      (startsWith t ''s'' \<and> startsWith (drop 1 t) ''://www.youtube.com/'')"
    using startsWith_append_length [of "''s''" 1 t "''://www.youtube.com/''"] by simp
  have b: "startsWith t ''s://youtube.com/'' =
      (startsWith t ''s'' \<and> startsWith (drop 1 t) ''://youtube.com/'')"
    using startsWith_append_length [of "''s''" 1 t "''://youtube.com/''"] by simp
  have c: "\<not> (startsWith t ''s'' \<and> startsWith t ''://www.youtube.com/'')"
    using startsWith_same_head [of t "CHR ''s''" "[]" "CHR '':''" "''//www.youtube.com/''"] by auto
  have d: "\<not> (startsWith t ''s'' \<and> startsWith t ''://youtube.com/'')"
    using startsWith_same_head [of t "CHR ''s''" "[]" "CHR '':''" "''//youtube.com/''"] by auto
  have e: "drop 19 (drop 1 t) = drop 20 t" "drop 15 (drop 1 t) = drop 16 t"
    by simp_all
  have "run (Seq (Opt (Lit ''s'')) ?X) t =
      (if startsWith t ''s'' then run ?X (drop 1 t) else []) @ run ?X t"
    by (rule run_Seq_Opt_Lit) simp
  also have "\<dots> = (if startsWith t ''s'' \<and> startsWith (drop 1 t) ''://www.youtube.com/'' then [drop 20 t]
      else if startsWith t ''s'' \<and> startsWith (drop 1 t) ''://youtube.com/'' then [drop 16 t]
      else if startsWith t ''://www.youtube.com/'' then [drop 19 t]
      else if startsWith t ''://youtube.com/'' then [drop 15 t] else [])"
    unfolding run_colon e by (rule if_append_chain [OF c d])
  finally show ?thesis unfolding a b .
qed

lemma run_head: "run urlRegexHead input = (case urlPath input of None \<Rightarrow> [] | Some p \<Rightarrow> [p])"
proof -
  let ?S = "Seq (Opt (Lit ''s'')) (Seq (Lit ''://'') (Seq (Opt (Lit ''www.'')) (Lit ''youtube.com/'')))"
  have a: "\<And>q. startsWith input (''http'' @ q) =
      (startsWith input ''http'' \<and> startsWith (drop 4 input) q)"
    by (rule startsWith_append_length) simp
  have "run urlRegexHead input = (if startsWith input ''http'' then run ?S (drop 4 input) else [])"
    unfolding urlRegexHead_def by (rule run_Seq_Lit) simp
  then show ?thesis
    unfolding run_s urlPath_def
    using a [of "''s://www.youtube.com/''"] a [of "''s://youtube.com/''"]
      a [of "''://www.youtube.com/''"] a [of "''://youtube.com/''"]
    by simp
qed

lemma plus_end: "([] \<in> set (run (Plus h) s)) = (s \<noteq> [] \<and> list_all h s)"
proof -
  let ?k = "length (takeWhile h s)"
  have k: "?k \<le> length s" by (rule length_takeWhile_le)
  have "([] \<in> set (run (Plus h) s)) = (\<exists>k. 1 \<le> k \<and> k \<le> ?k \<and> length s \<le> k)"
    by (auto simp: image_iff)
  also have "\<dots> = (s \<noteq> [] \<and> ?k = length s)"
    using k by (cases s) (auto intro: exI [of _ "length s"])
  also have "\<dots> = (s \<noteq> [] \<and> list_all h s)"
    by (metis takeWhile_eq_all_conv list_all_iff length_takeWhile_le take_all takeWhile_eq_take)
  finally show ?thesis .
qed

lemma rep1_end: "([] \<in> set (run (Rep d 1) s)) = (length s = 1 \<and> d (hd s))"
proof (cases s)
  case Nil
  then show ?thesis by simp
next
  case (Cons x xs)
  then show ?thesis by (cases xs) simp_all
qed

lemma rep_end:
  "([] \<in> set (run (Seq (Rep c n) (Rep d 1)) q))
     = (length q = Suc n \<and> list_all c (take n q) \<and> d (q ! n))"
proof -
  have a: "run (Seq (Rep c n) (Rep d 1)) q =
      (if n \<le> length q \<and> list_all c (take n q) then run (Rep d 1) (drop n q) else [])"
  proof (cases "n \<le> length q \<and> list_all c (take n q)")
    case True
    then have "run (Rep c n) q = [drop n q]" by simp
    then have "run (Seq (Rep c n) (Rep d 1)) q = run (Rep d 1) (drop n q)"
      by (simp only: run.simps(4) list.map concat.simps append_Nil2)
    with True show ?thesis by (simp only: if_True simp_thms)
  next
    case False
    then have "run (Rep c n) q = []" by simp
    then have "run (Seq (Rep c n) (Rep d 1)) q = []"
      by (simp only: run.simps(4) list.map concat.simps)
    with False show ?thesis by (simp only: if_False simp_thms)
  qed
  have b: "length q = Suc n \<Longrightarrow> hd (drop n q) = q ! n"
    by (simp add: hd_drop_conv_nth)
  have c: "(length (drop n q) = 1) = (length q = Suc n)"
    by auto
  show ?thesis
    unfolding a using b by (simp only: rep1_end c split: if_splits) auto
qed

lemma channel_end:
  "([] \<in> set (run (Seq (Lit ''channel/UC'') (Seq (Rep idChar 21) (Rep idLastChar 1))) p))
     = channelIdForm p"
proof -
  have r: "run (Seq (Lit ''channel/UC'') (Seq (Rep idChar 21) (Rep idLastChar 1))) p =
      (if startsWith p ''channel/UC'' then run (Seq (Rep idChar 21) (Rep idLastChar 1)) (drop 10 p) else [])"
    by (rule run_Seq_Lit) simp
  have n: "length p = 32 \<Longrightarrow> drop 10 p ! 21 = p ! 31"
    by simp
  have l: "(length (drop 10 p) = Suc 21) = (length p = 32)"
    by auto
  show ?thesis
  proof (cases "startsWith p ''channel/UC''")
    case True
    then show ?thesis
      unfolding r channelIdForm_def using n by (simp only: if_True rep_end l simp_thms) metis
  next
    case False
    then show ?thesis
      unfolding r channelIdForm_def by simp
  qed
qed

lemma handle_end:
  "([] \<in> set (run (Seq (Opt (Alt (Lit ''c/'') (Lit ''user/''))) (Plus handleChar)) p))
     = handleForm p"
proof -
  have c: "\<And>s. run (Lit ''c/'') s = (if startsWith s ''c/'' then [drop 2 s] else [])"
    by (rule run_Lit) simp
  have u: "\<And>s. run (Lit ''user/'') s = (if startsWith s ''user/'' then [drop 5 s] else [])"
    by (rule run_Lit) simp
  have "set (run (Seq (Opt (Alt (Lit ''c/'') (Lit ''user/''))) (Plus handleChar)) p)
      = (if startsWith p ''c/'' then set (run (Plus handleChar) (drop 2 p)) else {})
        \<union> (if startsWith p ''user/'' then set (run (Plus handleChar) (drop 5 p)) else {})
        \<union> set (run (Plus handleChar) p)"
    unfolding run.simps(2,3,4) c u by auto
  then show ?thesis
    unfolding handleForm_def handleToken_def
    using plus_end [of handleChar p] plus_end [of handleChar "drop 2 p"]
      plus_end [of handleChar "drop 5 p"]
    by (simp only: Un_iff split: if_splits) auto
qed

lemma group2_end:
  "([] \<in> set (run urlRegexGroup2 p)) = (channelIdForm p \<or> handleForm p)"
  unfolding urlRegexGroup2_def run.simps(3) set_append Un_iff channel_end handle_end ..

lemma matchGroup2_eq:
  "matchGroup2 input = (if recognizedUrl input then urlPath input else None)"
  unfolding matchGroup2_def run_head recognizedUrl_def group2_end
  by (cases "urlPath input") simp_all

lemma form_nonempty: "channelIdForm p \<or> handleForm p \<Longrightarrow> p \<noteq> []"
  unfolding channelIdForm_def handleForm_def handleToken_def startsWith_def by auto

lemma extractUsername_eq:
  "extractUsername input =
     (if startsWith input ''@'' then Some input
      else if recognizedUrl input then urlPath input else None)"
  unfolding extractUsername_def matchGroup2_eq
  using form_nonempty [of "the (urlPath input)"]
  by (auto simp: recognizedUrl_def split: option.splits)

lemma extractUsername_nonempty: "extractUsername u = Some username \<Longrightarrow> u \<noteq> []"
  unfolding extractUsername_eq
  by (auto simp: startsWith_def recognizedUrl_def urlPath_def split: if_splits)

text \<open>
  C9. \<open>extractUsername\<close> is total: it never fails. An input that starts with \<open>@\<close> is
  returned as it is; an input that is a URL of the grammar (scheme, optional \<open>www.\<close>,
  \<open>youtube.com/\<close>, then the channel-id form \<open>channel/UC\<close> with 21 characters of
  \<open>[\w-]\<close> and one of \<open>A\<close>, \<open>Q\<close>, \<open>g\<close>, \<open>w\<close>, or the handle form with an optional
  \<open>c/\<close> or \<open>user/\<close>) resolves to its path; the result is null exactly when the input
  neither starts with \<open>@\<close> nor is such a URL.
\<close>

theorem extractUsername_grammar:
  "extractUsername input =
     (if startsWith input ''@'' then Some input
      else if recognizedUrl input then urlPath input else None)
   \<and> ((extractUsername input = None)
        = (\<not> startsWith input ''@'' \<and> \<not> recognizedUrl input))"
proof -
  have b: "recognizedUrl input \<Longrightarrow> urlPath input \<noteq> None"
    by (cases "urlPath input") (simp_all add: recognizedUrl_def)
  show ?thesis using extractUsername_eq [of input] b by auto
qed

theorem extractUsername_grammar_examples:
  "extractUsername ''@somehandle'' = Some ''@somehandle''
   \<and> extractUsername ''https://www.youtube.com/@somehandle'' = Some ''@somehandle''
   \<and> extractUsername ''http://youtube.com/c/Some-Name'' = Some ''c/Some-Name''
   \<and> extractUsername ''https://youtube.com/user/some_name'' = Some ''user/some_name''
   \<and> extractUsername ''https://www.youtube.com/channel/UCabcdefghijklmnopqrstuA''
       = Some ''channel/UCabcdefghijklmnopqrstuA''
   \<and> extractUsername ''https://www.youtube.com/channel/UCabcdefghijklmnopqrstuB'' = None
   \<and> extractUsername ''https://vimeo.com/somehandle'' = None
   \<and> extractUsername ''somehandle'' = None"
proof -
  note defs = startsWith_def recognizedUrl_def urlPath_def handleForm_def handleToken_def
    handleChar_def channelIdForm_def idChar_def idLastChar_def wordChar_def
  have "extractUsername ''@somehandle'' = Some ''@somehandle''"
    using extractUsername_grammar [of "''@somehandle''"] by (simp add: defs)
  moreover have "extractUsername ''https://www.youtube.com/@somehandle'' = Some ''@somehandle''"
    using extractUsername_grammar [of "''https://www.youtube.com/@somehandle''"]
    by (simp add: defs)
  moreover have "extractUsername ''http://youtube.com/c/Some-Name'' = Some ''c/Some-Name''"
    using extractUsername_grammar [of "''http://youtube.com/c/Some-Name''"]
    by (simp add: defs)
  moreover have "extractUsername ''https://youtube.com/user/some_name'' = Some ''user/some_name''"
    using extractUsername_grammar [of "''https://youtube.com/user/some_name''"]
    by (simp add: defs)
  moreover have "extractUsername ''https://www.youtube.com/channel/UCabcdefghijklmnopqrstuA''
       = Some ''channel/UCabcdefghijklmnopqrstuA''"
    using extractUsername_grammar [of "''https://www.youtube.com/channel/UCabcdefghijklmnopqrstuA''"]
    by (simp add: defs)
  moreover have "extractUsername ''https://www.youtube.com/channel/UCabcdefghijklmnopqrstuB'' = None"
    using extractUsername_grammar [of "''https://www.youtube.com/channel/UCabcdefghijklmnopqrstuB''"]
    by (simp add: defs)
  moreover have "extractUsername ''https://vimeo.com/somehandle'' = None"
    using extractUsername_grammar [of "''https://vimeo.com/somehandle''"]
    by (simp add: defs)
  moreover have "extractUsername ''somehandle'' = None"
    using extractUsername_grammar [of "''somehandle''"]
    by (simp add: defs)
  ultimately show ?thesis by blast
qed

section \<open>Properties of the statistics fetch\<close>

lemma slice_drop: "slice xs i (i + n) @ drop (i + n) xs = drop i xs"
  unfolding slice_def by (metis add.commute add_diff_cancel_left' append_take_drop_id drop_drop)

lemma concat_videoIdBatches: "concat (videoIdBatches i videoIds) = drop i videoIds"
proof (induction i videoIds rule: videoIdBatches.induct)
  case (1 i videoIds)
  show ?case
  proof (cases "i < length videoIds")
    case True
    then show ?thesis
      using "1.IH" by (subst videoIdBatches.simps) (simp add: slice_drop)
  next
    case False
    then show ?thesis by (subst videoIdBatches.simps) simp
  qed
qed

lemma ceil_step: "0 < m \<Longrightarrow> Suc ((m - 50 + 49) div 50) = (m + 49) div (50::nat)"
proof (cases "50 \<le> m")
  case True
  then obtain k where k: "m = k + 50" by (metis le_add_diff_inverse2)
  show ?thesis unfolding k by simp
next
  case False
  assume "0 < m"
  with False have "(m + 49) div 50 = 1" by (intro div_nat_eqI) simp_all
  with False show ?thesis by simp
qed

lemma videoIdBatches_step:
  "i < length videoIds \<Longrightarrow>
   videoIdBatches i videoIds = slice videoIds i (i + batchSize) # videoIdBatches (i + batchSize) videoIds"
  by (subst videoIdBatches.simps) simp

lemma videoIdBatches_stop: "\<not> i < length videoIds \<Longrightarrow> videoIdBatches i videoIds = []"
  by (subst videoIdBatches.simps) simp

lemma length_videoIdBatches:
  "length (videoIdBatches i videoIds) = (length videoIds - i + 49) div 50"
proof (induction i videoIds rule: videoIdBatches.induct)
  case (1 i videoIds)
  show ?case
  proof (cases "i < length videoIds")
    case True
    have "length (videoIdBatches i videoIds) = Suc (length (videoIdBatches (i + batchSize) videoIds))"
      by (simp only: videoIdBatches_step [OF True] list.size(4))
    also have "\<dots> = Suc ((length videoIds - (i + batchSize) + 49) div 50)"
      by (simp only: "1.IH" [OF True])
    also have "\<dots> = (length videoIds - i + 49) div 50"
    proof -
      have "length videoIds - (i + batchSize) = length videoIds - i - 50"
        by (simp add: batchSize_def)
      moreover have "0 < length videoIds - i" using True by simp
      ultimately show ?thesis by (simp only: ceil_step)
    qed
    finally show ?thesis .
  next
    case False
    then have "length videoIds - i + 49 < 50" by simp
    then show ?thesis by (simp only: videoIdBatches_stop [OF False] list.size(3) div_less)
  qed
qed

lemma videoIdBatches_sizes:
  "b \<in> set (videoIdBatches i videoIds) \<Longrightarrow> b \<noteq> [] \<and> length b \<le> 50"
proof (induction i videoIds rule: videoIdBatches.induct)
  case (1 i videoIds)
  show ?case
  proof (cases "i < length videoIds")
    case True
    with "1.prems" have "b = slice videoIds i (i + batchSize) \<or> b \<in> set (videoIdBatches (i + batchSize) videoIds)"
      by (subst (asm) videoIdBatches.simps) simp
    then show ?thesis
    proof
      assume "b = slice videoIds i (i + batchSize)"
      with True show ?thesis by (simp add: slice_def batchSize_def)
    next
      assume "b \<in> set (videoIdBatches (i + batchSize) videoIds)"
      with True "1.IH" show ?thesis by simp
    qed
  next
    case False
    with "1.prems" show ?thesis by (subst (asm) videoIdBatches.simps) simp
  qed
qed

lemma answered_threw: "answered env b = (\<not> threw env b)"
  by (simp add: answered_def threw_def)

lemma fetchVideoStatisticsBatch_eq:
  "fetchVideoStatisticsBatch env now b st =
     (Inr (batchStatistics env now b),
      st\<lparr>totalQuotaUsed := totalQuotaUsed st + (if answered env b then 1 else 0),
         console := console st @ (if threw env b then [batchError b] else [])\<rparr>)"
proof (cases "videosList env b")
  case Thrown
  then show ?thesis
    by (simp add: fetchVideoStatisticsBatch_def batchStatistics_def answered_def threw_def
        consoleError_def batchError_def)
next
  case (Data items)
  then show ?thesis
    by (cases items)
      (simp_all add: fetchVideoStatisticsBatch_def batchStatistics_def answered_def threw_def
        trackQuotaUsage_def QUOTA_COSTS_videos_list_def)
qed

lemma runBatches_eq:
  "runBatches env now bs st =
     (map (\<lambda>b. Inr (batchStatistics env now b)) bs,
      st\<lparr>totalQuotaUsed := totalQuotaUsed st + length (filter (answered env) bs),
         console := console st @ map batchError (filter (threw env) bs)\<rparr>)"
  by (induction bs arbitrary: st) (simp_all add: fetchVideoStatisticsBatch_eq)

lemma promiseAll_fulfilled: "promiseAll (map (\<lambda>x. Inr (f x)) xs) = Inr (map f xs)"
  by (induction xs) simp_all

lemma getVideoStatistics_eq:
  "getVideoStatistics env now videoIds st =
     (Inr (concat (map (batchStatistics env now) (videoIdBatches 0 videoIds))),
      st\<lparr>totalQuotaUsed :=
           totalQuotaUsed st + length (filter (answered env) (videoIdBatches 0 videoIds)),
         console :=
           console st @ map batchError (filter (threw env) (videoIdBatches 0 videoIds))\<rparr>)"
  unfolding getVideoStatistics_def runBatches_eq by (simp add: promiseAll_fulfilled)

text \<open>
  Two example runs: 52 ids, cut into a batch of 50 and a batch of 2, and 102 ids, cut
  into two batches of 50 and a batch of 2.
\<close>

lemma numbered_batches:
  "videoIdBatches 0 (map numberedId [0 ..< 52])
     = [map numberedId [0 ..< 50], map numberedId [50 ..< 52]]"
  "videoIdBatches 0 (map numberedId [0 ..< 102])
     = [map numberedId [0 ..< 50], map numberedId [50 ..< 100], map numberedId [100 ..< 102]]"
  by (simp_all add: videoIdBatches.simps slice_def batchSize_def take_map drop_map)

text \<open>
  C8, as stated, fails in the logging: a batch that the upstream answers with an error
  body fails without a line on the console. It contributes the empty list, the other
  batch is unaffected and nothing is thrown, but the failure is not logged (and the
  request is charged).
\<close>

theorem getVideoStatistics_error_body_unlogged:
  "videoIdBatches 0 (map numberedId [0 ..< 52])
     = [map numberedId [0 ..< 50], map numberedId [50 ..< 52]]
   \<and> videosList errorBodies (map numberedId [50 ..< 52]) = Data None
   \<and> fst (getVideoStatistics errorBodies 7 (map numberedId [0 ..< 52]) emptyState)
       = Inr (map (\<lambda>n. \<lparr>videoId = numberedId n, statistics = [], recordedAt = 7\<rparr>) [0 ..< 50])
   \<and> console (snd (getVideoStatistics errorBodies 7 (map numberedId [0 ..< 52]) emptyState)) = []
   \<and> totalQuotaUsed (snd (getVideoStatistics errorBodies 7 (map numberedId [0 ..< 52]) emptyState))
       = 2"
proof -
  let ?run = "getVideoStatistics errorBodies 7 (map numberedId [0 ..< 52]) emptyState"
  define b1 where "b1 = map numberedId [0 ..< 50]"
  define b2 where "b2 = map numberedId [50 ..< 52]"
  have bs: "videoIdBatches 0 (map numberedId [0 ..< 52]) = [b1, b2]"
    unfolding b1_def b2_def by (rule numbered_batches(1))
  have l: "length b1 = 50" "length b2 = 2"
    by (simp_all add: b1_def b2_def)
  have v: "videosList errorBodies b1 = Data (Some (map bareItem b1))"
    "videosList errorBodies b2 = Data None"
    using l by (simp_all add: errorBodies_def)
  have full: "batchStatistics errorBodies 7 b1
      = map (\<lambda>n. \<lparr>videoId = numberedId n, statistics = [], recordedAt = 7\<rparr>) [0 ..< 50]"
    by (simp add: batchStatistics_def v(1)) (simp add: b1_def toVideoStatistics_def bareItem_def)
  have short: "batchStatistics errorBodies 7 b2 = []"
    unfolding batchStatistics_def v(2) by simp
  have a: "answered errorBodies b1" "answered errorBodies b2"
    "\<not> threw errorBodies b1" "\<not> threw errorBodies b2"
    unfolding answered_def threw_def v by simp_all
  have r: "fst ?run
      = Inr (map (\<lambda>n. \<lparr>videoId = numberedId n, statistics = [], recordedAt = 7\<rparr>) [0 ..< 50])"
    unfolding getVideoStatistics_eq bs by (simp add: full short)
  have c: "console (snd ?run) = []"
    unfolding getVideoStatistics_eq bs by (simp add: a emptyState_def)
  have q: "totalQuotaUsed (snd ?run) = 2"
    unfolding getVideoStatistics_eq bs by (simp add: a emptyState_def)
  from numbered_batches(1) v(2) [unfolded b2_def] r c q show ?thesis by blast
qed

text \<open>
  C8, amended. The ids are cut, in order, into \<open>ceil(n/50)\<close> batches, none empty and none
  longer than 50. The fetch never throws: its result is the concatenation, batch by
  batch, of what each batch contributes on its own, and a failed batch contributes the
  empty list. A batch fails in one of two ways. When its request throws, the failure is
  logged, one line with the ids of the batch for each such batch, and the request is not
  charged. When the upstream answers it with a body without items, the failure is not
  logged, and the request is charged.
\<close>

theorem getVideoStatistics_batches:
  "concat (videoIdBatches 0 videoIds) = videoIds
   \<and> length (videoIdBatches 0 videoIds) = (length videoIds + 49) div 50
   \<and> (\<forall>b \<in> set (videoIdBatches 0 videoIds). b \<noteq> [] \<and> length b \<le> 50)
   \<and> fst (getVideoStatistics env now videoIds st)
       = Inr (concat (map (batchStatistics env now) (videoIdBatches 0 videoIds)))
   \<and> (\<forall>b. threw env b \<or> refused env b \<longrightarrow> batchStatistics env now b = [])
   \<and> (\<exists>written.
         console (snd (getVideoStatistics env now videoIds st)) = console st @ written
         \<and> length written = length (filter (threw env) (videoIdBatches 0 videoIds))
         \<and> set written = batchError ` set (filter (threw env) (videoIdBatches 0 videoIds)))
   \<and> totalQuotaUsed (snd (getVideoStatistics env now videoIds st))
       = totalQuotaUsed st + length (filter (answered env) (videoIdBatches 0 videoIds))
   \<and> (\<forall>b s. threw env b \<longrightarrow>
         fetchVideoStatisticsBatch env now b s
           = (Inr [], s\<lparr>console := console s @ [batchError b]\<rparr>))
   \<and> (\<forall>b s. refused env b \<longrightarrow>
         fetchVideoStatisticsBatch env now b s
           = (Inr [], s\<lparr>totalQuotaUsed := totalQuotaUsed s + 1\<rparr>))"
proof -
  let ?bs = "videoIdBatches 0 videoIds"
  have "concat ?bs = videoIds"
    by (simp add: concat_videoIdBatches)
  moreover have "length ?bs = (length videoIds + 49) div 50"
    by (simp add: length_videoIdBatches)
  moreover have "\<forall>b \<in> set ?bs. b \<noteq> [] \<and> length b \<le> 50"
    using videoIdBatches_sizes by blast
  moreover have "fst (getVideoStatistics env now videoIds st)
      = Inr (concat (map (batchStatistics env now) ?bs))"
    unfolding getVideoStatistics_eq by simp
  moreover have "\<forall>b. threw env b \<or> refused env b \<longrightarrow> batchStatistics env now b = []"
    by (auto simp: batchStatistics_def threw_def refused_def)
  moreover have "\<exists>written.
      console (snd (getVideoStatistics env now videoIds st)) = console st @ written
      \<and> length written = length (filter (threw env) ?bs)
      \<and> set written = batchError ` set (filter (threw env) ?bs)"
  proof (intro exI conjI)
    show "console (snd (getVideoStatistics env now videoIds st))
        = console st @ map batchError (filter (threw env) ?bs)"
      unfolding getVideoStatistics_eq by simp
  qed simp_all
  moreover have "totalQuotaUsed (snd (getVideoStatistics env now videoIds st))
      = totalQuotaUsed st + length (filter (answered env) ?bs)"
    unfolding getVideoStatistics_eq by simp
  moreover have "\<forall>b s. threw env b \<longrightarrow>
      fetchVideoStatisticsBatch env now b s = (Inr [], s\<lparr>console := console s @ [batchError b]\<rparr>)"
    by (simp add: fetchVideoStatisticsBatch_def threw_def consoleError_def batchError_def)
  moreover have "\<forall>b s. refused env b \<longrightarrow>
      fetchVideoStatisticsBatch env now b s
        = (Inr [], s\<lparr>totalQuotaUsed := totalQuotaUsed s + 1\<rparr>)"
    by (simp add: fetchVideoStatisticsBatch_def refused_def trackQuotaUsage_def
        QUOTA_COSTS_videos_list_def)
  ultimately show ?thesis by blast
qed

theorem getVideoStatistics_batches_example:
  "videoIdBatches 0 (map numberedId [0 ..< 102])
     = [map numberedId [0 ..< 50], map numberedId [50 ..< 100], map numberedId [100 ..< 102]]
   \<and> threw fullBatchesOnly (map numberedId [100 ..< 102])
   \<and> fst (getVideoStatistics fullBatchesOnly 7 (map numberedId [0 ..< 102]) emptyState)
       = Inr (map (\<lambda>n. \<lparr>videoId = numberedId n, statistics = [], recordedAt = 7\<rparr>) [0 ..< 100])
   \<and> console (snd (getVideoStatistics fullBatchesOnly 7 (map numberedId [0 ..< 102]) emptyState))
       = [(''Error fetching video statistics:'', map numberedId [100 ..< 102])]
   \<and> totalQuotaUsed
        (snd (getVideoStatistics fullBatchesOnly 7 (map numberedId [0 ..< 102]) emptyState)) = 2
   \<and> refused errorBodies (map numberedId [50 ..< 52])
   \<and> fetchVideoStatisticsBatch errorBodies 7 (map numberedId [50 ..< 52]) emptyState
       = (Inr [], emptyState\<lparr>totalQuotaUsed := 1\<rparr>)"
proof -
  let ?ids = "map numberedId [0 ..< 102]"
  let ?run = "getVideoStatistics fullBatchesOnly 7 ?ids emptyState"
  let ?row = "\<lambda>n. \<lparr>videoId = numberedId n, statistics = [], recordedAt = 7::nat\<rparr>"
  define b1 where "b1 = map numberedId [0 ..< 50]"
  define b2 where "b2 = map numberedId [50 ..< 100]"
  define b3 where "b3 = map numberedId [100 ..< 102]"
  define b4 where "b4 = map numberedId [50 ..< 52]"
  have bs: "videoIdBatches 0 ?ids = [b1, b2, b3]"
    unfolding b1_def b2_def b3_def by (rule numbered_batches(2))
  have l: "length b1 = 50" "length b2 = 50" "length b3 = 2" "length b4 = 2"
    by (simp_all add: b1_def b2_def b3_def b4_def)
  have v: "videosList fullBatchesOnly b1 = Data (Some (map bareItem b1))"
    "videosList fullBatchesOnly b2 = Data (Some (map bareItem b2))"
    "videosList fullBatchesOnly b3 = Thrown"
    "videosList errorBodies b4 = Data None"
    using l by (simp_all add: fullBatchesOnly_def errorBodies_def)
  have full: "batchStatistics fullBatchesOnly 7 b1 = map ?row [0 ..< 50]"
    "batchStatistics fullBatchesOnly 7 b2 = map ?row [50 ..< 100]"
    by (simp_all add: batchStatistics_def v(1,2))
      (simp_all add: b1_def b2_def toVideoStatistics_def bareItem_def)
  have short: "batchStatistics fullBatchesOnly 7 b3 = []"
    unfolding batchStatistics_def v by simp
  have a: "\<not> threw fullBatchesOnly b1" "\<not> threw fullBatchesOnly b2" "threw fullBatchesOnly b3"
    "refused errorBodies b4"
    unfolding threw_def refused_def v by simp_all
  have j: "map ?row [0 ..< 50] @ map ?row [50 ..< 100] = map ?row [0 ..< 100]"
  proof -
    have "[0 ..< 50] @ [50 ..< 100] = [0 ..< 100::nat]"
      using upt_add_eq_append [of 0 50 50] by simp
    then show ?thesis by (metis map_append)
  qed
  note t = getVideoStatistics_batches [of ?ids fullBatchesOnly 7 emptyState, unfolded bs]
  have "fst ?run = Inr (concat (map (batchStatistics fullBatchesOnly 7) [b1, b2, b3]))"
    using t by blast
  then have r: "fst ?run = Inr (map ?row [0 ..< 100])"
    unfolding j [symmetric] by (simp add: full short)
  have "totalQuotaUsed (snd ?run)
      = totalQuotaUsed emptyState + length (filter (answered fullBatchesOnly) [b1, b2, b3])"
    using t by blast
  then have q: "totalQuotaUsed (snd ?run) = 2"
    by (simp add: answered_threw a emptyState_def)
  obtain written where w: "console (snd ?run) = console emptyState @ written"
    "length written = length (filter (threw fullBatchesOnly) [b1, b2, b3])"
    "set written = batchError ` set (filter (threw fullBatchesOnly) [b1, b2, b3])"
    using t by blast
  have "length written = 1" "set written = {batchError b3}"
    using w(2,3) by (simp_all add: a)
  then have "written = [batchError b3]"
    by (cases written) auto
  then have c: "console (snd ?run)
      = [(''Error fetching video statistics:'', map numberedId [100 ..< 102])]"
    using w(1) by (simp add: emptyState_def batchError_def b3_def)
  have "fetchVideoStatisticsBatch errorBodies 7 b4 emptyState
      = (Inr [], emptyState\<lparr>totalQuotaUsed := totalQuotaUsed emptyState + 1\<rparr>)"
    using getVideoStatistics_batches [of "[]" errorBodies 7 emptyState] a(4) by blast
  then have e: "fetchVideoStatisticsBatch errorBodies 7 (map numberedId [50 ..< 52]) emptyState
      = (Inr [], emptyState\<lparr>totalQuotaUsed := 1\<rparr>)"
    unfolding b4_def by (simp add: emptyState_def)
  from numbered_batches(2) a(3) [unfolded b3_def] r c q a(4) [unfolded b4_def] e
  show ?thesis by blast
qed

section \<open>Properties of the ingestion endpoint\<close>

lemma getUploadsChannelDetail_frame:
  "getUploadsChannelDetail env username st = Inr (d, st1) \<Longrightarrow>
   channels st1 = channels st \<and> videos st1 = videos st
   \<and> videoStatistics st1 = videoStatistics st \<and> youtube_cache st1 = youtube_cache st"
  unfolding getUploadsChannelDetail_def trackQuotaUsage_def
  by (auto split: if_splits option.splits fetched.splits)

lemma ingestDetails_incomplete:
  "\<not> completeDetails d \<Longrightarrow> ingestDetails env now d st = Some (invalidInput, st)"
  by (simp add: ingestDetails_def)

lemma ingest_resolved:
  "extractUsername u = Some username \<Longrightarrow>
   getUploadsChannelDetail env username (st\<lparr>totalQuotaUsed := 0\<rparr>) = Inr (d, st1) \<Longrightarrow>
   ingest env now (Some u) st = ingestDetails env now d st1"
  using extractUsername_nonempty [of u username]
  by (simp add: ingest_def truthyString_def)

lemma incomplete_iff:
  "(\<not> completeDetails d) =
     (details_id d \<in> {None, Some []} \<or> customName d \<in> {None, Some []}
      \<or> thumbnailHighUrl d \<in> {None, Some []} \<or> uploads d \<in> {None, Some []}
      \<or> followersCount d \<in> {None, Some 0} \<or> videoCount d \<in> {None, Some 0}
      \<or> viewsCount d \<in> {None, Some 0})"
  by (auto simp: completeDetails_def truthyString_def truthyNumber_def split: option.splits)

text \<open>
  C10. When the descriptor resolved for the request has a follower, view or video count
  that is 0 or null (or a string field that is empty or null), the ingestion endpoint
  answers 400 with the text \<open>Invalid input (either a YouTube URL or a username is
  required)\<close> and writes nothing: tables and cache are as before. So the ingestion goes
  on only for a descriptor whose three counters are non-zero and whose strings are
  non-empty.
\<close>

theorem ingest_rejects_incomplete:
  assumes "extractUsername u = Some username"
    and "getUploadsChannelDetail env username (st\<lparr>totalQuotaUsed := 0\<rparr>) = Inr (d, st1)"
    and "followersCount d \<in> {None, Some 0} \<or> viewsCount d \<in> {None, Some 0}
         \<or> videoCount d \<in> {None, Some 0}
         \<or> details_id d \<in> {None, Some []} \<or> customName d \<in> {None, Some []}
         \<or> thumbnailHighUrl d \<in> {None, Some []} \<or> uploads d \<in> {None, Some []}"
  shows "ingest env now (Some u) st
           = Some (TextResponse 400
               ''Invalid input (either a YouTube URL or a username is required)'', st1)
         \<and> channels st1 = channels st \<and> videos st1 = videos st
         \<and> videoStatistics st1 = videoStatistics st \<and> youtube_cache st1 = youtube_cache st"
proof -
  from assms(3) have "\<not> completeDetails d" unfolding incomplete_iff by blast
  then have "ingest env now (Some u) st = Some (invalidInput, st1)"
    using ingest_resolved [OF assms(1,2)] ingestDetails_incomplete by simp
  moreover have "channels st1 = channels st \<and> videos st1 = videos st
      \<and> videoStatistics st1 = videoStatistics st \<and> youtube_cache st1 = youtube_cache st"
    using getUploadsChannelDetail_frame [OF assms(2)] by simp
  ultimately show ?thesis by (simp add: invalidInput_def)
qed

theorem ingest_rejects_incomplete_example:
  "extractUsername ''@quiet'' = Some ''@quiet''
   \<and> getUploadsChannelDetail quietUpstream ''@quiet'' (emptyState\<lparr>totalQuotaUsed := 0\<rparr>)
       = Inr (detailsOfItem zeroSubscribers, emptyState\<lparr>totalQuotaUsed := 1\<rparr>)
   \<and> followersCount (detailsOfItem zeroSubscribers) = None
   \<and> ingest quietUpstream 0 (Some ''@quiet'') emptyState
       = Some (TextResponse 400
           ''Invalid input (either a YouTube URL or a username is required)'',
           emptyState\<lparr>totalQuotaUsed := 1\<rparr>)"
proof -
  have u: "extractUsername ''@quiet'' = Some ''@quiet''"
    by (simp add: extractUsername_def startsWith_def)
  have d: "getUploadsChannelDetail quietUpstream ''@quiet'' (emptyState\<lparr>totalQuotaUsed := 0\<rparr>)
      = Inr (detailsOfItem zeroSubscribers, emptyState\<lparr>totalQuotaUsed := 1\<rparr>)"
    by (simp add: getUploadsChannelDetail_def getChannelDetailsFromDB_def quietUpstream_def
        emptyState_def trackQuotaUsage_def QUOTA_COSTS_channels_list_def)
  have z: "followersCount (detailsOfItem zeroSubscribers) = None"
    by (simp add: detailsOfItem_def zeroSubscribers_def numberOrNull_def)
  show ?thesis
    using ingest_rejects_incomplete [OF u d, of 0] u d z by simp
qed

section \<open>Quota accounting of an ingestion\<close>

lemma getPlaylistVideosLoop_pages:
  "servesPages (playlistItems env playlistId) token pages \<Longrightarrow>
   getPlaylistVideosLoop env playlistId token vids st =
     Some (Inr (vids @ concat (map (\<lambda>p. map toVideoDetails (page_items p)) pages)),
           st\<lparr>totalQuotaUsed := totalQuotaUsed st + length pages * QUOTA_COSTS_playlistItems_list\<rparr>)"
proof (induction pages arbitrary: token vids st)
  case Nil
  then show ?case by simp
next
  case (Cons p ps)
  show ?case
  proof (cases ps)
    case Nil
    with Cons.prems show ?thesis
      by (subst getPlaylistVideosLoop.simps) (simp add: trackQuotaUsage_def)
  next
    case (Cons q qs)
    with Cons.prems have a: "playlistItems env playlistId token = Data p"
      and b: "truthyString (nextPageToken p)"
      and c: "servesPages (playlistItems env playlistId) (nextPageToken p) ps"
      by simp_all
    show ?thesis
      by (subst getPlaylistVideosLoop.simps)
        (simp add: a b Cons.IH [OF c] trackQuotaUsage_def algebra_simps)
  qed
qed

lemma getPlaylistVideos_pages:
  "servesPages (playlistItems env playlistId) None pages \<Longrightarrow>
   getPlaylistVideos env playlistId st =
     Some (Inr (concat (map (\<lambda>p. map toVideoDetails (page_items p)) pages)),
           st\<lparr>totalQuotaUsed := totalQuotaUsed st + length pages * QUOTA_COSTS_playlistItems_list\<rparr>)"
  unfolding getPlaylistVideos_def by (simp add: getPlaylistVideosLoop_pages)

lemma insertChannel_quota:
  "insertChannel env now cid th up f vw vc nm st = Inr (c, st1) \<Longrightarrow>
   totalQuotaUsed st1 = totalQuotaUsed st"
  unfolding insertChannel_def by (auto simp: Let_def split: if_splits list.splits)

lemma insertVideos_quota:
  "insertVideos env now vids cid st = Inr st1 \<Longrightarrow> totalQuotaUsed st1 = totalQuotaUsed st"
  unfolding insertVideos_def by (auto split: if_splits)

lemma insertVideoStatistics_quota:
  "insertVideoStatistics env now stats st = Inr (n, st1) \<Longrightarrow>
   totalQuotaUsed st1 = totalQuotaUsed st"
  unfolding insertVideoStatistics_def by (auto split: if_splits)

lemma ingestWrites_quota:
  "totalQuotaUsed (snd (ingestWrites env now cid th up f vw vc nm vids stats st))
     = totalQuotaUsed st"
proof (cases "insertChannel env now cid th up f vw vc nm st")
  case (Inl e)
  then show ?thesis by (simp add: ingestWrites_def)
next
  case (Inr r)
  obtain c st1 where r: "r = (c, st1)" by (cases r)
  note q1 = insertChannel_quota [OF Inr [unfolded r]]
  show ?thesis
  proof (cases "insertVideos env now vids cid st1")
    case (Inl e)
    with Inr r q1 show ?thesis by (simp add: ingestWrites_def)
  next
    case st2: (Inr st2)
    note q2 = insertVideos_quota [OF st2]
    show ?thesis
    proof (cases "insertVideoStatistics env now stats st2")
      case (Inl e)
      with Inr r st2 q1 q2 show ?thesis by (simp add: ingestWrites_def)
    next
      case r3: (Inr r3)
      obtain n st3 where r3': "r3 = (n, st3)" by (cases r3)
      note q3 = insertVideoStatistics_quota [OF r3 [unfolded r3']]
      from Inr r st2 r3 r3' q1 q2 q3 show ?thesis
        by (simp add: ingestWrites_def Let_def)
    qed
  qed
qed

lemma ingestDetails_complete:
  assumes "completeDetails d"
  shows "\<exists>cid th upl nm f vw vc.
     details_id d = Some cid \<and> thumbnailHighUrl d = Some th \<and> uploads d = Some upl
     \<and> customName d = Some nm \<and> followersCount d = Some f \<and> viewsCount d = Some vw
     \<and> videoCount d = Some vc
     \<and> ingestDetails env now d st = ingestChannel env now cid th upl f vw vc nm st"
  using assms
  by (auto simp: completeDetails_def truthyString_def truthyNumber_def ingestDetails_def
      split: option.splits)

lemma ingestChannel_quota:
  assumes "servesPages (playlistItems env upl) None pages"
  shows "\<exists>resp st'. ingestChannel env now cid th upl f vw vc nm st = Some (resp, st')
     \<and> totalQuotaUsed st' = totalQuotaUsed st
         + length pages * QUOTA_COSTS_playlistItems_list
         + length (filter (answered env)
             (videoIdBatches 0 (map item_videoId (concat (map page_items pages)))))
           * QUOTA_COSTS_videos_list"
proof -
  define vids where "vids = concat (map (\<lambda>p. map toVideoDetails (page_items p)) pages)"
  define ids where "ids = map item_videoId (concat (map page_items pages))"
  define st1 where
    "st1 = st\<lparr>totalQuotaUsed := totalQuotaUsed st + length pages * QUOTA_COSTS_playlistItems_list\<rparr>"
  have ids: "map details_videoId vids = ids"
    unfolding vids_def ids_def by (simp add: map_concat toVideoDetails_def comp_def)
  have pl: "getPlaylistVideos env upl st = Some (Inr vids, st1)"
    unfolding vids_def st1_def by (rule getPlaylistVideos_pages [OF assms])
  have q1: "totalQuotaUsed st1 = totalQuotaUsed st + length pages * QUOTA_COSTS_playlistItems_list"
    unfolding st1_def by simp
  show ?thesis
  proof (cases "vids = []")
    case True
    then have "ids = []" using ids by simp
    then have "videoIdBatches 0 ids = []" by (simp add: videoIdBatches.simps)
    with True pl q1 show ?thesis
      unfolding ids_def [symmetric] by (simp add: ingestChannel_def)
  next
    case False
    define st2 where "st2 = st1\<lparr>totalQuotaUsed :=
        totalQuotaUsed st1 + length (filter (answered env) (videoIdBatches 0 ids)),
      console := console st1 @ map batchError (filter (threw env) (videoIdBatches 0 ids))\<rparr>"
    define stats where "stats = concat (map (batchStatistics env now) (videoIdBatches 0 ids))"
    have gv: "getVideoStatistics env now ids st1 = (Inr stats, st2)"
      unfolding stats_def st2_def by (rule getVideoStatistics_eq)
    have "ingestChannel env now cid th upl f vw vc nm st =
        Some (ingestWrites env now cid th upl f vw vc nm vids stats st2)"
      using False pl gv by (simp add: ingestChannel_def ids)
    moreover have "totalQuotaUsed (snd (ingestWrites env now cid th upl f vw vc nm vids stats st2))
        = totalQuotaUsed st2"
      by (rule ingestWrites_quota)
    moreover have "totalQuotaUsed st2 = totalQuotaUsed st
         + length pages * QUOTA_COSTS_playlistItems_list
         + length (filter (answered env) (videoIdBatches 0 ids)) * QUOTA_COSTS_videos_list"
      unfolding st2_def using q1 by (simp add: QUOTA_COSTS_videos_list_def)
    ultimately show ?thesis
      unfolding ids_def [symmetric]
      by (cases "ingestWrites env now cid th upl f vw vc nm vids stats st2") simp
  qed
qed

lemma getChannelDetailsFromDB_quota:
  "getChannelDetailsFromDB username (st\<lparr>totalQuotaUsed := q\<rparr>) = getChannelDetailsFromDB username st"
  by (simp add: getChannelDetailsFromDB_def)

lemma ingest_quota_lookup:
  assumes u: "extractUsername u = Some username"
    and db: "\<not> fails env SelectChannel" "getChannelDetailsFromDB username st = None"
    and up: "channelsForHandle env username = Data (item # rest)"
    and ok: "completeDetails (detailsOfItem item)"
    and pg: "servesPages (playlistItems env (yt_uploads item)) None pages"
  shows "\<exists>resp st'. ingest env now (Some u) st = Some (resp, st')
     \<and> totalQuotaUsed st' = QUOTA_COSTS_channels_list
         + length pages * QUOTA_COSTS_playlistItems_list
         + length (filter (answered env)
             (videoIdBatches 0 (map item_videoId (concat (map page_items pages)))))
           * QUOTA_COSTS_videos_list"
proof -
  let ?st0 = "st\<lparr>totalQuotaUsed := 0\<rparr>"
  let ?st1 = "trackQuotaUsage QUOTA_COSTS_channels_list ?st0"
  have d: "getUploadsChannelDetail env username ?st0 = Inr (detailsOfItem item, ?st1)"
    using db up by (simp add: getUploadsChannelDetail_def getChannelDetailsFromDB_quota)
  obtain cid th upl nm f vw vc where
    upl: "uploads (detailsOfItem item) = Some upl"
    and e: "ingestDetails env now (detailsOfItem item) ?st1
        = ingestChannel env now cid th upl f vw vc nm ?st1"
    using ingestDetails_complete [OF ok, of env now ?st1] by blast
  have "upl = yt_uploads item"
    using upl by (simp add: detailsOfItem_def stringOrNull_def split: if_splits)
  with pg have pg': "servesPages (playlistItems env upl) None pages" by simp
  have q: "totalQuotaUsed ?st1 = QUOTA_COSTS_channels_list"
    by (simp add: trackQuotaUsage_def)
  show ?thesis
    using ingestChannel_quota [OF pg', of now cid th f vw vc nm ?st1]
    unfolding ingest_resolved [OF u d] e q by simp
qed

text \<open>
  The example run: one lookup, the two pages, and three batches of 50, 50 and 10 ids.
\<close>

lemma busy_ids:
  "map item_videoId (page_items firstPage @ page_items secondPage) = map numberedId [0 ..< 110]"
proof -
  have "[0 ..< 60] @ [60 ..< 110] = [0 ..< 110::nat]"
    using upt_add_eq_append [of 0 60 50] by simp
  then have "map numberedId [0 ..< 60] @ map numberedId [60 ..< 110] = map numberedId [0 ..< 110]"
    by (metis map_append)
  then show ?thesis
    by (simp add: firstPage_def secondPage_def numberedItem_def comp_def)
qed

lemma busy_batches:
  "videoIdBatches 0 (map numberedId [0 ..< 110])
     = [map numberedId [0 ..< 50], map numberedId [50 ..< 100], map numberedId [100 ..< 110]]"
  by (simp add: videoIdBatches.simps slice_def batchSize_def take_map drop_map)

lemma busy_run:
  "extractUsername ''@busy'' = Some ''@busy''
   \<and> \<not> fails (busyUpstream fullOnly) SelectChannel
   \<and> getChannelDetailsFromDB ''@busy'' emptyState = None
   \<and> channelsForHandle (busyUpstream fullOnly) ''@busy'' = Data [busyChannel]
   \<and> completeDetails (detailsOfItem busyChannel)
   \<and> servesPages (playlistItems (busyUpstream fullOnly) (yt_uploads busyChannel)) None
        [firstPage, secondPage]"
  by (simp add: extractUsername_def startsWith_def busyUpstream_def getChannelDetailsFromDB_def
      emptyState_def completeDetails_def detailsOfItem_def busyChannel_def stringOrNull_def
      numberOrNull_def truthyString_def truthyNumber_def firstPage_def secondPage_def)

lemma busy_answered:
  "length (filter (answered (busyUpstream fullOnly))
     (videoIdBatches 0 (map item_videoId (page_items firstPage @ page_items secondPage))))
   = (if fullOnly then 2 else 3)"
  unfolding busy_ids busy_batches by (simp add: answered_def busyUpstream_def)

text \<open>
  C7, as stated, fails: with one channel lookup, two pages and three batches issued, of
  which the last is not answered, the total is 5, not 6.
\<close>

theorem ingest_quota_unanswered_batch:
  "servesPages (playlistItems (busyUpstream True) ''UU2'') None [firstPage, secondPage]
   \<and> length (videoIdBatches 0
        (map item_videoId (page_items firstPage @ page_items secondPage))) = 3
   \<and> map_option (\<lambda>r. totalQuotaUsed (snd r)) (ingest (busyUpstream True) 0 (Some ''@busy'') emptyState)
       = Some 5
   \<and> 1 * QUOTA_COSTS_channels_list + 2 * QUOTA_COSTS_playlistItems_list
       + 3 * QUOTA_COSTS_videos_list = 6"
proof -
  have r: "servesPages (playlistItems (busyUpstream True) ''UU2'') None [firstPage, secondPage]"
    using busy_run [of True] by (simp add: busyChannel_def)
  have "\<exists>resp st'. ingest (busyUpstream True) 0 (Some ''@busy'') emptyState = Some (resp, st')
     \<and> totalQuotaUsed st' = 5"
    using ingest_quota_lookup [of "''@busy''" "''@busy''" "busyUpstream True" emptyState
        busyChannel "[]" "[firstPage, secondPage]" 0] busy_run [of True] busy_answered [of True]
    by (simp add: QUOTA_COSTS_channels_list_def QUOTA_COSTS_playlistItems_list_def
        QUOTA_COSTS_videos_list_def)
  then have "map_option (\<lambda>r. totalQuotaUsed (snd r))
      (ingest (busyUpstream True) 0 (Some ''@busy'') emptyState) = Some 5"
    by auto
  with r show ?thesis
    unfolding busy_ids busy_batches
    by (simp add: QUOTA_COSTS_channels_list_def QUOTA_COSTS_playlistItems_list_def
        QUOTA_COSTS_videos_list_def)
qed

text \<open>
  C7, amended. An ingestion whose channel lookup is answered by the upstream, whose
  playlist is served on two pages and whose ids make three batches ends (with whatever
  response) with a quota total, counted from zero, of the channel cost, twice the
  playlist cost and the statistics cost once for each batch that was answered; when all
  three batches are answered the total is
  \<open>1 * channelListCost + 2 * playlistListCost + 3 * statisticsListCost = 6\<close>.
\<close>

theorem ingest_quota_two_pages_three_batches:
  assumes "extractUsername u = Some username"
    and "\<not> fails env SelectChannel"
    and "getChannelDetailsFromDB username st = None"
    and "channelsForHandle env username = Data (item # rest)"
    and "completeDetails (detailsOfItem item)"
    and "servesPages (playlistItems env (yt_uploads item)) None [p1, p2]"
    and "length (videoIdBatches 0 (map item_videoId (page_items p1 @ page_items p2))) = 3"
  shows "\<exists>resp st'. ingest env now (Some u) st = Some (resp, st')
     \<and> totalQuotaUsed st' =
         1 * QUOTA_COSTS_channels_list + 2 * QUOTA_COSTS_playlistItems_list
         + length (filter (answered env)
             (videoIdBatches 0 (map item_videoId (page_items p1 @ page_items p2))))
           * QUOTA_COSTS_videos_list
     \<and> ((\<forall>b \<in> set (videoIdBatches 0 (map item_videoId (page_items p1 @ page_items p2))).
            answered env b)
          \<longrightarrow> totalQuotaUsed st' =
                1 * QUOTA_COSTS_channels_list + 2 * QUOTA_COSTS_playlistItems_list
                + 3 * QUOTA_COSTS_videos_list
              \<and> totalQuotaUsed st' = 6)"
proof -
  let ?bs = "videoIdBatches 0 (map item_videoId (page_items p1 @ page_items p2))"
  obtain resp st' where r: "ingest env now (Some u) st = Some (resp, st')"
    and q: "totalQuotaUsed st' = QUOTA_COSTS_channels_list
        + length [p1, p2] * QUOTA_COSTS_playlistItems_list
        + length (filter (answered env)
            (videoIdBatches 0 (map item_videoId (concat (map page_items [p1, p2])))))
          * QUOTA_COSTS_videos_list"
    using ingest_quota_lookup [OF assms(1-6), of now] by blast
  have all: "(\<forall>b \<in> set ?bs. answered env b) \<Longrightarrow> length (filter (answered env) ?bs) = 3"
    using assms(7) by (metis filter_True)
  from q have "totalQuotaUsed st' =
      1 * QUOTA_COSTS_channels_list + 2 * QUOTA_COSTS_playlistItems_list
      + length (filter (answered env) ?bs) * QUOTA_COSTS_videos_list"
    by simp
  with r all show ?thesis
    by (auto simp: QUOTA_COSTS_channels_list_def QUOTA_COSTS_playlistItems_list_def
        QUOTA_COSTS_videos_list_def)
qed

theorem ingest_quota_two_pages_three_batches_example:
  "extractUsername ''@busy'' = Some ''@busy''
   \<and> servesPages (playlistItems (busyUpstream False) ''UU2'') None [firstPage, secondPage]
   \<and> length (videoIdBatches 0
        (map item_videoId (page_items firstPage @ page_items secondPage))) = 3
   \<and> list_all (answered (busyUpstream False))
        (videoIdBatches 0 (map item_videoId (page_items firstPage @ page_items secondPage)))
   \<and> map_option (\<lambda>r. totalQuotaUsed (snd r))
        (ingest (busyUpstream False) 0 (Some ''@busy'') emptyState) = Some 6"
proof -
  have n: "length (videoIdBatches 0
      (map item_videoId (page_items firstPage @ page_items secondPage))) = 3"
    unfolding busy_ids busy_batches by simp
  have a: "list_all (answered (busyUpstream False))
      (videoIdBatches 0 (map item_videoId (page_items firstPage @ page_items secondPage)))"
    unfolding busy_ids busy_batches by (simp add: answered_def busyUpstream_def)
  have r: "servesPages (playlistItems (busyUpstream False) ''UU2'') None [firstPage, secondPage]"
    using busy_run [of False] by (simp add: busyChannel_def)
  have "\<exists>resp st'. ingest (busyUpstream False) 0 (Some ''@busy'') emptyState = Some (resp, st')
     \<and> totalQuotaUsed st' = 6"
    using ingest_quota_two_pages_three_batches [of "''@busy''" "''@busy''" "busyUpstream False"
        emptyState busyChannel "[]" firstPage secondPage 0] busy_run [of False] n a
    by (auto simp: list_all_iff)
  then have "map_option (\<lambda>r. totalQuotaUsed (snd r))
      (ingest (busyUpstream False) 0 (Some ''@busy'') emptyState) = Some 6"
    by auto
  with n a r busy_run [of False] show ?thesis by simp
qed

section \<open>Properties of the refresh of all channels\<close>

lemma refreshChannelDetails_outcome:
  "fst (refreshChannelDetails env now cid st) = refreshOutcome env cid"
  unfolding refreshChannelDetails_def refreshOutcome_def
  by (auto simp: Let_def split: fetched.splits list.splits)

lemma refreshEach_outcomes:
  "fst (refreshEach env now cids st) = map (refreshOutcome env) cids"
proof (induction cids arbitrary: st)
  case Nil
  then show ?case by simp
next
  case (Cons cid cids)
  obtain r st1 where a: "refreshChannelDetails env now cid st = (r, st1)"
    by (cases "refreshChannelDetails env now cid st")
  obtain rs st2 where b: "refreshEach env now cids st1 = (rs, st2)"
    by (cases "refreshEach env now cids st1")
  from a have "r = refreshOutcome env cid"
    using refreshChannelDetails_outcome [of env now cid st] by simp
  moreover from b have "rs = map (refreshOutcome env) cids"
    using Cons.IH [of st1] by simp
  ultimately show ?case using a b by simp
qed

lemma promiseAll_rejected: "Inl e \<in> set ps \<Longrightarrow> \<exists>e'. promiseAll ps = Inl e'"
proof (induction ps)
  case Nil
  then show ?case by simp
next
  case (Cons p ps)
  then show ?case by (cases p) (auto split: sum.splits)
qed

lemma promiseAll_fulfilled_unit:
  "(\<forall>p \<in> set ps. p = Inr ()) \<Longrightarrow> promiseAll ps = Inr (map (\<lambda>_. ()) ps)"
  by (induction ps) simp_all

lemma refreshAll_cases:
  assumes "\<not> fails env SelectChannels"
  shows "fst (refreshAllChannelDetails env now st) =
     (case promiseAll (map (\<lambda>c. refreshOutcome env (channel_id c)) (channels st)) of
        Inl e \<Rightarrow> Inl e
      | Inr _ \<Rightarrow> Inr (map (\<lambda>c. (channel_id c, channelName c)) (channels st)))"
proof -
  let ?cids = "map fst (map (\<lambda>c. (channel_id c, channelName c)) (channels st))"
  obtain rs st1 where a: "refreshEach env now ?cids st = (rs, st1)"
    by (cases "refreshEach env now ?cids st")
  then have "rs = map (refreshOutcome env) ?cids"
    using refreshEach_outcomes [of env now ?cids st] by simp
  then have "rs = map (\<lambda>c. refreshOutcome env (channel_id c)) (channels st)"
    by (simp add: comp_def)
  with a assms show ?thesis
    by (simp add: refreshAllChannelDetails_def Let_def split: sum.splits)
qed

lemma refreshAll_throws:
  assumes "\<not> fails env SelectChannels"
    and "c \<in> set (channels st)" and "refreshOutcome env (channel_id c) = Inl e"
  shows "\<exists>e'. fst (refreshAllChannelDetails env now st) = Inl e'"
proof -
  have "Inl e \<in> set (map (\<lambda>c. refreshOutcome env (channel_id c)) (channels st))"
    using assms(2,3) by force
  then obtain e' where
    "promiseAll (map (\<lambda>c. refreshOutcome env (channel_id c)) (channels st)) = Inl e'"
    using promiseAll_rejected by blast
  then show ?thesis unfolding refreshAll_cases [OF assms(1)] by simp
qed

lemma refreshAll_returns:
  assumes "\<not> fails env SelectChannels"
    and "\<forall>c \<in> set (channels st). refreshOutcome env (channel_id c) = Inr ()"
  shows "fst (refreshAllChannelDetails env now st)
     = Inr (map (\<lambda>c. (channel_id c, channelName c)) (channels st))"
proof -
  have "\<forall>p \<in> set (map (\<lambda>c. refreshOutcome env (channel_id c)) (channels st)). p = Inr ()"
    using assms(2) by auto
  then show ?thesis
    unfolding refreshAll_cases [OF assms(1)]
    by (simp add: promiseAll_fulfilled_unit)
qed

lemma refreshEndpoint_cases:
  "fst (refreshEndpoint env now st) =
     (case fst (refreshAllChannelDetails env now (st\<lparr>totalQuotaUsed := 0\<rparr>)) of
        Inl e \<Rightarrow> RefreshFailed (totalQuotaUsed (snd (refreshAllChannelDetails env now (st\<lparr>totalQuotaUsed := 0\<rparr>))))
      | Inr updatedChannels \<Rightarrow>
          Refreshed (totalQuotaUsed (snd (refreshAllChannelDetails env now (st\<lparr>totalQuotaUsed := 0\<rparr>))))
            updatedChannels)"
  unfolding refreshEndpoint_def
  by (cases "refreshAllChannelDetails env now (st\<lparr>totalQuotaUsed := 0\<rparr>)")
    (simp split: sum.splits)

lemma tenChannels_fourth_fails:
  "map (\<lambda>c. refreshOutcome (refreshUpstream (Some ''UCd'')) (channel_id c)) (channels tenChannels)
     = [Inr (), Inr (), Inr (), Inl FetchFailed, Inr (), Inr (), Inr (), Inr (), Inr (), Inr ()]"
  by (simp add: tenChannels_def emptyState_def refreshOutcome_def refreshUpstream_def
      knownChannel_def)

text \<open>
  C2, as stated, fails: with ten channels of which the fourth's upstream call fails,
  \<open>refreshAll\<close> throws and returns no outcome at all (the endpoint answers 500).
\<close>

theorem refreshAll_one_failure_throws:
  "length (channels tenChannels) = 10
   \<and> map (\<lambda>c. channelsById (refreshUpstream (Some ''UCd'')) (channel_id c) = Thrown) (channels tenChannels)
       = [False, False, False, True, False, False, False, False, False, False]
   \<and> fst (refreshAllChannelDetails (refreshUpstream (Some ''UCd'')) 0 tenChannels) = Inl FetchFailed
   \<and> answered500 (fst (refreshEndpoint (refreshUpstream (Some ''UCd'')) 0 tenChannels))"
proof -
  have f: "\<not> fails (refreshUpstream (Some ''UCd'')) SelectChannels"
    by (simp add: refreshUpstream_def)
  have c: "channels (tenChannels\<lparr>totalQuotaUsed := 0\<rparr>) = channels tenChannels"
    by simp
  have a: "fst (refreshAllChannelDetails (refreshUpstream (Some ''UCd'')) 0 st) = Inl FetchFailed"
    if "channels st = channels tenChannels" for st
    unfolding refreshAll_cases [OF f] that tenChannels_fourth_fails by simp
  have "length (channels tenChannels) = 10"
    by (simp add: tenChannels_def emptyState_def)
  moreover have "map (\<lambda>c. channelsById (refreshUpstream (Some ''UCd'')) (channel_id c) = Thrown)
      (channels tenChannels)
       = [False, False, False, True, False, False, False, False, False, False]"
    by (simp add: tenChannels_def emptyState_def refreshUpstream_def knownChannel_def)
  ultimately show ?thesis
    using a [of tenChannels] a [OF c] by (simp add: refreshEndpoint_cases answered500_def)
qed

text \<open>
  C2, amended. \<open>refreshAll\<close> is all or nothing. When the refresh of every known channel
  is fulfilled it returns the list read at the start, the id and name of every channel,
  one entry per channel and no mark of success or failure. When the upstream call of
  any one channel fails it throws, whatever the other channels did, and the endpoint
  answers 500 with no per-channel outcome.
\<close>

theorem refreshAll_all_or_nothing:
  assumes "\<not> fails env SelectChannels"
  shows "((\<forall>c \<in> set (channels st). refreshOutcome env (channel_id c) = Inr ())
          \<longrightarrow> fst (refreshAllChannelDetails env now st)
                = Inr (map (\<lambda>c. (channel_id c, channelName c)) (channels st))
              \<and> (\<exists>q. fst (refreshEndpoint env now st)
                       = Refreshed q (map (\<lambda>c. (channel_id c, channelName c)) (channels st))))
       \<and> ((\<exists>c \<in> set (channels st). channelsById env (channel_id c) = Thrown)
          \<longrightarrow> (\<exists>e. fst (refreshAllChannelDetails env now st) = Inl e)
              \<and> (\<exists>q. fst (refreshEndpoint env now st) = RefreshFailed q))"
proof (intro conjI impI)
  assume ok: "\<forall>c \<in> set (channels st). refreshOutcome env (channel_id c) = Inr ()"
  show "fst (refreshAllChannelDetails env now st)
      = Inr (map (\<lambda>c. (channel_id c, channelName c)) (channels st))"
    by (rule refreshAll_returns [OF assms ok])
  have "fst (refreshAllChannelDetails env now (st\<lparr>totalQuotaUsed := 0\<rparr>))
      = Inr (map (\<lambda>c. (channel_id c, channelName c)) (channels st))"
    using refreshAll_returns [OF assms, of "st\<lparr>totalQuotaUsed := 0\<rparr>" now] ok by simp
  then show "\<exists>q. fst (refreshEndpoint env now st)
      = Refreshed q (map (\<lambda>c. (channel_id c, channelName c)) (channels st))"
    by (simp add: refreshEndpoint_cases)
next
  assume "\<exists>c \<in> set (channels st). channelsById env (channel_id c) = Thrown"
  then obtain c where c: "c \<in> set (channels st)" "channelsById env (channel_id c) = Thrown"
    by blast
  then have o: "refreshOutcome env (channel_id c) = Inl FetchFailed"
    by (simp add: refreshOutcome_def)
  show "\<exists>e. fst (refreshAllChannelDetails env now st) = Inl e"
    by (rule refreshAll_throws [OF assms c(1) o])
  have "c \<in> set (channels (st\<lparr>totalQuotaUsed := 0\<rparr>))" using c(1) by simp
  from refreshAll_throws [OF assms this o, of now]
  show "\<exists>q. fst (refreshEndpoint env now st) = RefreshFailed q"
    by (auto simp: refreshEndpoint_cases)
qed

theorem refreshAll_all_or_nothing_example:
  "\<not> fails (refreshUpstream None) SelectChannels
   \<and> list_all (\<lambda>c. refreshOutcome (refreshUpstream None) (channel_id c) = Inr ())
        (channels tenChannels)
   \<and> fst (refreshAllChannelDetails (refreshUpstream None) 0 tenChannels)
       = Inr (map (\<lambda>c. (channel_id c, channelName c)) (channels tenChannels))
   \<and> length (map (\<lambda>c. (channel_id c, channelName c)) (channels tenChannels)) = 10
   \<and> channelsById (refreshUpstream (Some ''UCd'')) (channel_id (knownChannel ''d'' 4)) = Thrown
   \<and> isl (fst (refreshAllChannelDetails (refreshUpstream (Some ''UCd'')) 0 tenChannels))"
proof -
  have f: "\<not> fails (refreshUpstream failing) SelectChannels" for failing
    by (simp add: refreshUpstream_def)
  have ok: "list_all (\<lambda>c. refreshOutcome (refreshUpstream None) (channel_id c) = Inr ())
      (channels tenChannels)"
    by (simp add: tenChannels_def emptyState_def refreshOutcome_def refreshUpstream_def
        knownChannel_def)
  have t: "channelsById (refreshUpstream (Some ''UCd'')) (channel_id (knownChannel ''d'' 4)) = Thrown"
    by (simp add: refreshUpstream_def knownChannel_def)
  have m: "knownChannel ''d'' 4 \<in> set (channels tenChannels)"
    by (simp add: tenChannels_def emptyState_def)
  have n: "length (map (\<lambda>c. (channel_id c, channelName c)) (channels tenChannels)) = 10"
    by (simp add: tenChannels_def emptyState_def)
  have "fst (refreshAllChannelDetails (refreshUpstream None) 0 tenChannels)
       = Inr (map (\<lambda>c. (channel_id c, channelName c)) (channels tenChannels))"
    using refreshAll_all_or_nothing [OF f [of None], of tenChannels 0] ok
    by (simp add: list_all_iff)
  moreover have "isl (fst (refreshAllChannelDetails (refreshUpstream (Some ''UCd'')) 0 tenChannels))"
    using refreshAll_all_or_nothing [OF f [of "Some ''UCd''"], of tenChannels 0] t m
    by auto
  ultimately show ?thesis using f ok t n by simp
qed

section \<open>Properties of the rollup endpoint\<close>

lemma channelStatistics_tables:
  "channels st' = channels st \<Longrightarrow> videos st' = videos st \<Longrightarrow>
   videoStatistics st' = videoStatistics st \<Longrightarrow> channelStatistics st' = channelStatistics st"
  by (simp add: channelStatistics_def allData_def)

lemma getStatistics_hit:
  assumes "\<not> fails env CacheGet"
    and "cacheGet (youtube_cache st) ''channelStatistics'' now = Some v"
  shows "getStatistics env now st = (StatisticsOk v ''cache'', st)"
  using assms by (simp add: getStatistics_def)

lemma getStatistics_miss:
  assumes "\<not> fails env CacheGet" "\<not> fails env SelectStatistics" "\<not> fails env CachePut"
    and "cacheGet (youtube_cache st) ''channelStatistics'' now = None"
  shows "getStatistics env now st =
     (StatisticsOk (channelStatistics st) ''database'',
      st\<lparr>youtube_cache :=
           (youtube_cache st)(''channelStatistics'' \<mapsto> (channelStatistics st, now + 3600))\<rparr>)"
  using assms by (simp add: getStatistics_def)

text \<open>
  C5, as stated, fails in the source tag: a rollup computed on a miss is answered with
  source \<open>database\<close>, not \<open>computed\<close>.
\<close>

theorem getStatistics_source_on_miss:
  "cacheGet (youtube_cache emptyState) ''channelStatistics'' 0 = None
   \<and> fst (getStatistics quietUpstream 0 emptyState) = StatisticsOk [] ''database''
   \<and> fst (getStatistics quietUpstream 0 emptyState) \<noteq> StatisticsOk [] ''computed''"
  by (simp add: getStatistics_def cacheGet_def emptyState_def quietUpstream_def
      channelStatistics_def allData_def leftJoin_def)

text \<open>
  C5, amended. On a hit (a value present and not expired) the endpoint answers the
  cached value as it is, with source \<open>cache\<close>, leaves the state as it is and does not
  read the tables: the answer is the same whatever the tables hold. On a miss it
  computes the rollup, stores it so that it is served until 3600 seconds later and no
  longer, and answers it with source \<open>database\<close>.
\<close>

theorem getStatistics_cache_aside:
  assumes "\<not> fails env CacheGet"
  shows "(\<forall>v. cacheGet (youtube_cache st) ''channelStatistics'' now = Some v \<longrightarrow>
            getStatistics env now st = (StatisticsOk v ''cache'', st)
            \<and> (\<forall>cs vs ss. fst (getStatistics env now
                    (st\<lparr>channels := cs, videos := vs, videoStatistics := ss\<rparr>))
                  = StatisticsOk v ''cache''))
       \<and> (cacheGet (youtube_cache st) ''channelStatistics'' now = None
            \<and> \<not> fails env SelectStatistics \<and> \<not> fails env CachePut \<longrightarrow>
            getStatistics env now st =
              (StatisticsOk (channelStatistics st) ''database'',
               st\<lparr>youtube_cache :=
                    (youtube_cache st)(''channelStatistics'' \<mapsto>
                       (channelStatistics st, now + 3600))\<rparr>)
            \<and> (\<forall>t. cacheGet (youtube_cache (snd (getStatistics env now st)))
                        ''channelStatistics'' t
                  = (if t < now + 3600 then Some (channelStatistics st) else None)))"
proof (intro conjI allI impI)
  fix v assume v: "cacheGet (youtube_cache st) ''channelStatistics'' now = Some v"
  show "getStatistics env now st = (StatisticsOk v ''cache'', st)"
    by (rule getStatistics_hit [OF assms v])
  fix cs vs ss
  show "fst (getStatistics env now (st\<lparr>channels := cs, videos := vs, videoStatistics := ss\<rparr>))
      = StatisticsOk v ''cache''"
    using getStatistics_hit [OF assms, of "st\<lparr>channels := cs, videos := vs, videoStatistics := ss\<rparr>" now v] v
    by simp
next
  assume a: "cacheGet (youtube_cache st) ''channelStatistics'' now = None
      \<and> \<not> fails env SelectStatistics \<and> \<not> fails env CachePut"
  then have m: "getStatistics env now st =
     (StatisticsOk (channelStatistics st) ''database'',
      st\<lparr>youtube_cache :=
           (youtube_cache st)(''channelStatistics'' \<mapsto> (channelStatistics st, now + 3600))\<rparr>)"
    using getStatistics_miss [OF assms] by blast
  show "getStatistics env now st =
     (StatisticsOk (channelStatistics st) ''database'',
      st\<lparr>youtube_cache :=
           (youtube_cache st)(''channelStatistics'' \<mapsto> (channelStatistics st, now + 3600))\<rparr>)"
    by (rule m)
  fix t
  show "cacheGet (youtube_cache (snd (getStatistics env now st))) ''channelStatistics'' t
      = (if t < now + 3600 then Some (channelStatistics st) else None)"
    unfolding m by (simp add: cacheGet_def)
qed

theorem getStatistics_cache_aside_example:
  "\<not> fails databaseDown CacheGet
   \<and> cacheGet (youtube_cache cachedState) ''channelStatistics'' 10 = Some [staleRollup]
   \<and> getStatistics databaseDown 10 cachedState = (StatisticsOk [staleRollup] ''cache'', cachedState)
   \<and> cacheGet (youtube_cache cachedState) ''channelStatistics'' 100 = None
   \<and> \<not> fails quietUpstream SelectStatistics \<and> \<not> fails quietUpstream CachePut
   \<and> fst (getStatistics quietUpstream 100 cachedState) = StatisticsOk [] ''database''
   \<and> youtube_cache (snd (getStatistics quietUpstream 100 cachedState)) ''channelStatistics''
       = Some ([], 3700)"
proof -
  have f: "\<not> fails databaseDown CacheGet" "\<not> fails quietUpstream CacheGet"
    "\<not> fails quietUpstream SelectStatistics" "\<not> fails quietUpstream CachePut"
    by (simp_all add: databaseDown_def quietUpstream_def)
  have h: "cacheGet (youtube_cache cachedState) ''channelStatistics'' 10 = Some [staleRollup]"
    by (simp add: cacheGet_def cachedState_def)
  have m: "cacheGet (youtube_cache cachedState) ''channelStatistics'' 100 = None"
    by (simp add: cacheGet_def cachedState_def)
  have c: "channelStatistics cachedState = []"
    by (simp add: channelStatistics_def allData_def leftJoin_def cachedState_def emptyState_def)
  have "getStatistics databaseDown 10 cachedState = (StatisticsOk [staleRollup] ''cache'', cachedState)"
    using getStatistics_cache_aside [OF f(1), of cachedState 10] h by simp
  moreover have "getStatistics quietUpstream 100 cachedState =
      (StatisticsOk [] ''database'',
       cachedState\<lparr>youtube_cache :=
          (youtube_cache cachedState)(''channelStatistics'' \<mapsto> ([], 3700))\<rparr>)"
    using getStatistics_cache_aside [OF f(2), of cachedState 100] m f(3,4) c by simp
  ultimately show ?thesis using f h m by simp
qed

section \<open>Invalidation of the cached rollup\<close>

lemma getPlaylistVideosLoop_sameStore:
  assumes "getPlaylistVideosLoop env playlistId token vids st = Some y"
  shows "sameStore st (snd y)"
proof (rule getPlaylistVideosLoop.raw_induct
    [where P = "\<lambda>e p t v s r. sameStore s (snd r)", OF _ assms])
  fix loop e p t v s r
  assume IH: "\<And>e p t v s r. loop e p t v s = Some r \<Longrightarrow> sameStore s (snd r)"
    and body: "(case playlistItems e p t of
        Thrown \<Rightarrow> Some (Inl FetchFailed, s)
      | Data page \<Rightarrow>
          if truthyString (nextPageToken page)
          then loop e p (nextPageToken page) (v @ map toVideoDetails (page_items page))
                 (trackQuotaUsage QUOTA_COSTS_playlistItems_list s)
          else Some (Inr (v @ map toVideoDetails (page_items page)),
                     trackQuotaUsage QUOTA_COSTS_playlistItems_list s)) = Some r"
  show "sameStore s (snd r)"
  proof (cases "playlistItems e p t")
    case Thrown
    with body show ?thesis by (auto simp: sameStore_def)
  next
    case (Data page)
    show ?thesis
    proof (cases "truthyString (nextPageToken page)")
      case True
      with Data body have
        "loop e p (nextPageToken page) (v @ map toVideoDetails (page_items page))
           (trackQuotaUsage QUOTA_COSTS_playlistItems_list s) = Some r"
        by simp
      from IH [OF this] show ?thesis
        by (simp add: sameStore_def trackQuotaUsage_def)
    next
      case False
      with Data body show ?thesis by (auto simp: sameStore_def trackQuotaUsage_def)
    qed
  qed
qed

lemma getPlaylistVideos_sameStore:
  "getPlaylistVideos env playlistId st = Some (r, st') \<Longrightarrow> sameStore st st'"
  unfolding getPlaylistVideos_def using getPlaylistVideosLoop_sameStore by fastforce

lemma sameStore_refl: "sameStore st st"
  by (simp add: sameStore_def)

lemma sameStore_trans: "sameStore a b \<Longrightarrow> sameStore b c \<Longrightarrow> sameStore a c"
  by (simp add: sameStore_def)

lemma sameStore_quota: "sameStore st (st\<lparr>totalQuotaUsed := q\<rparr>)"
  by (simp add: sameStore_def)

lemma getVideoStatistics_sameStore:
  "sameStore st (snd (getVideoStatistics env now ids st))"
  by (simp add: getVideoStatistics_eq sameStore_def)

lemma getUploadsChannelDetail_sameStore:
  "getUploadsChannelDetail env username st = Inr (d, st1) \<Longrightarrow> sameStore st st1"
  using getUploadsChannelDetail_frame by (simp add: sameStore_def)

lemma insertChannel_keeps:
  "insertChannel env now cid th up f vw vc nm st = Inr (c, st1) \<Longrightarrow>
   videoStatistics st1 = videoStatistics st \<and> youtube_cache st1 = youtube_cache st"
  unfolding insertChannel_def by (auto simp: Let_def split: if_splits list.splits)

lemma insertVideos_keeps:
  "insertVideos env now vids cid st = Inr st1 \<Longrightarrow>
   videoStatistics st1 = videoStatistics st \<and> youtube_cache st1 = youtube_cache st"
  unfolding insertVideos_def by (auto split: if_splits)

lemma insertVideoStatistics_appends:
  "insertVideoStatistics env now stats st = Inr (n, st1) \<Longrightarrow>
   stats \<noteq> [] \<and> n = length stats
   \<and> videoStatistics st1 = videoStatistics st @ map (\<lambda>s. s\<lparr>recordedAt := now\<rparr>) stats
   \<and> youtube_cache st1 = youtube_cache st \<and> channels st1 = channels st \<and> videos st1 = videos st"
  unfolding insertVideoStatistics_def by (auto split: if_splits)

lemma ingestWrites_success:
  assumes "ingestWrites env now cid th up f vw vc nm vids stats st = (Ingested body, st')"
  shows "youtube_cache st' ''channelStatistics'' = None
     \<and> videoStatistics st' = videoStatistics st @ map (\<lambda>s. s\<lparr>recordedAt := now\<rparr>) stats
     \<and> body_video body = stats \<and> insertedCount body = length stats \<and> stats \<noteq> []
     \<and> quotaUsed body = totalQuotaUsed st'"
proof (cases "insertChannel env now cid th up f vw vc nm st")
  case (Inl e)
  with assms show ?thesis by (simp add: ingestWrites_def internalServerError_def)
next
  case (Inr r)
  obtain c st1 where r: "r = (c, st1)" by (cases r)
  note k1 = insertChannel_keeps [OF Inr [unfolded r]]
  show ?thesis
  proof (cases "insertVideos env now vids cid st1")
    case (Inl e)
    with Inr r assms show ?thesis by (simp add: ingestWrites_def internalServerError_def)
  next
    case st2: (Inr st2)
    note k2 = insertVideos_keeps [OF st2]
    show ?thesis
    proof (cases "insertVideoStatistics env now stats st2")
      case (Inl e)
      with Inr r st2 assms show ?thesis by (simp add: ingestWrites_def internalServerError_def)
    next
      case r3: (Inr r3)
      obtain n st3 where r3': "r3 = (n, st3)" by (cases r3)
      note k3 = insertVideoStatistics_appends [OF r3 [unfolded r3']]
      from Inr r st2 r3 r3' assms k1 k2 k3 show ?thesis
        by (auto simp: ingestWrites_def Let_def internalServerError_def split: if_splits)
    qed
  qed
qed

lemma ingestChannel_success:
  assumes "ingestChannel env now cid th up f vw vc nm st = Some (Ingested body, st')"
  shows "\<exists>vids stats st2. sameStore st st2
     \<and> ingestWrites env now cid th up f vw vc nm vids stats st2 = (Ingested body, st')"
proof (cases "getPlaylistVideos env up st")
  case None
  with assms show ?thesis by (simp add: ingestChannel_def)
next
  case (Some y)
  obtain r st1 where y: "y = (r, st1)" by (cases y)
  note s1 = getPlaylistVideos_sameStore [OF Some [unfolded y]]
  show ?thesis
  proof (cases r)
    case (Inl e)
    with Some y assms show ?thesis by (simp add: ingestChannel_def internalServerError_def)
  next
    case (Inr vids)
    let ?g = "getVideoStatistics env now (map details_videoId vids) st1"
    obtain rs st2 where g: "?g = (rs, st2)" by (cases ?g)
    have s2: "sameStore st1 st2"
      using getVideoStatistics_sameStore [of st1 env now "map details_videoId vids"] g by simp
    from Some y Inr g assms obtain stats where
      "ingestWrites env now cid th up f vw vc nm vids stats st2 = (Ingested body, st')"
      by (auto simp: ingestChannel_def internalServerError_def split: if_splits sum.splits)
    with sameStore_trans [OF s1 s2] show ?thesis by blast
  qed
qed

lemma ingestDetails_success:
  assumes "ingestDetails env now d st = Some (Ingested body, st')"
  shows "\<exists>cid th up f vw vc nm.
     ingestChannel env now cid th up f vw vc nm st = Some (Ingested body, st')"
  using assms
  by (simp add: ingestDetails_def invalidInput_def split: if_splits option.splits) blast

lemma ingest_success:
  assumes "ingest env now channelUrl st = Some (Ingested body, st')"
  shows "\<exists>cid th up f vw vc nm vids stats st2. sameStore st st2
     \<and> ingestWrites env now cid th up f vw vc nm vids stats st2 = (Ingested body, st')"
proof -
  let ?st0 = "st\<lparr>totalQuotaUsed := 0\<rparr>"
  from assms obtain username d st1 where
    d: "getUploadsChannelDetail env username ?st0 = Inr (d, st1)"
    and i: "ingestDetails env now d st1 = Some (Ingested body, st')"
    by (auto simp: ingest_def Let_def invalidInput_def internalServerError_def
        split: if_splits option.splits sum.splits)
  have s: "sameStore st st1"
    using sameStore_trans [OF sameStore_quota getUploadsChannelDetail_sameStore [OF d]] .
  from ingestDetails_success [OF i] obtain cid th up f vw vc nm where
    "ingestChannel env now cid th up f vw vc nm st1 = Some (Ingested body, st')"
    by blast
  from ingestChannel_success [OF this] obtain vids stats st2 where
    "sameStore st1 st2"
    "ingestWrites env now cid th up f vw vc nm vids stats st2 = (Ingested body, st')"
    by blast
  with s show ?thesis using sameStore_trans by blast
qed

lemma getStatistics_coherent:
  assumes "coherent st" and "getStatistics env now st = (r, st1)"
  shows "coherent st1 \<and> channelStatistics st1 = channelStatistics st
     \<and> (r = StatisticsFailed \<or> (\<exists>source. r = StatisticsOk (channelStatistics st) source))"
proof (cases "fails env CacheGet")
  case True
  with assms show ?thesis by (auto simp: getStatistics_def)
next
  case False
  show ?thesis
  proof (cases "cacheGet (youtube_cache st) ''channelStatistics'' now")
    case (Some v)
    then have "v = channelStatistics st"
      using assms(1) by (auto simp: coherent_def cacheGet_def split: option.splits if_splits)
    with Some False assms show ?thesis by (auto simp: getStatistics_def)
  next
    case None
    have t: "channelStatistics (st\<lparr>youtube_cache := k\<rparr>) = channelStatistics st" for k
      by (rule channelStatistics_tables) simp_all
    from None False assms show ?thesis
      by (auto simp: getStatistics_def coherent_def t split: if_splits)
  qed
qed

lemma readRollups_coherent:
  "coherent st \<Longrightarrow> r \<in> set (readRollups reqs st) \<Longrightarrow>
   r = StatisticsFailed \<or> (\<exists>source. r = StatisticsOk (channelStatistics st) source)"
proof (induction reqs arbitrary: st)
  case Nil
  then show ?case by simp
next
  case (Cons req reqs)
  obtain env now where req: "req = (env, now)" by (cases req)
  obtain r1 st1 where g: "getStatistics env now st = (r1, st1)"
    by (cases "getStatistics env now st")
  note c = getStatistics_coherent [OF Cons.prems(1) g]
  from Cons.prems(2) req g have "r = r1 \<or> r \<in> set (readRollups reqs st1)" by simp
  then show ?case
  proof
    assume "r = r1"
    with c show ?thesis by simp
  next
    assume "r \<in> set (readRollups reqs st1)"
    from Cons.IH [OF _ this] c show ?thesis by simp
  qed
qed

lemma small_pages: "servesPages (playlistItems smallUpstream ''UU3'') None [onlyPage]"
  by (simp add: smallUpstream_def onlyPage_def truthyString_def)

lemma small_playlist:
  "getPlaylistVideos smallUpstream ''UU3'' st =
     Some (Inr (map toVideoDetails (page_items onlyPage)),
           st\<lparr>totalQuotaUsed := totalQuotaUsed st + 1\<rparr>)"
  using getPlaylistVideos_pages [OF small_pages, of st]
  by (simp add: QUOTA_COSTS_playlistItems_list_def)

lemma small_batches: "videoIdBatches 0 [''vidA'', ''vidB''] = [[''vidA'', ''vidB'']]"
  by (simp add: videoIdBatches.simps slice_def batchSize_def)

lemma small_ingest:
  "\<exists>body st'. ingest smallUpstream 50 (Some ''@small'') cachedState = Some (Ingested body, st')
     \<and> insertedCount body = 2 \<and> quotaUsed body = 3"
  by (simp add: ingest_def extractUsername_def startsWith_def truthyString_def truthyNumber_def
      getUploadsChannelDetail_def getChannelDetailsFromDB_def smallUpstream_def cachedState_def
      emptyState_def detailsOfItem_def smallChannel_def stringOrNull_def numberOrNull_def
      trackQuotaUsage_def QUOTA_COSTS_channels_list_def ingestDetails_def completeDetails_def
      ingestChannel_def small_playlist [unfolded smallUpstream_def] onlyPage_def
      toVideoDetails_def getVideoStatistics_eq small_batches batchStatistics_def answered_def
      tenLikes_def toVideoStatistics_def ingestWrites_def insertChannel_def insertVideos_def
      upsertVideo_def insertVideoStatistics_def Let_def)

text \<open>
  C6. An ingestion that ends with the JSON response of status 200 has appended its
  statistics rows (there is at least one) and has deleted the key \<open>channelStatistics\<close>
  before it answers. So the next rollup request that does not fail computes the rollup
  from the tables with the appended rows, and every answer of every later sequence of
  rollup requests is that rollup: none is a value cached before the append. (The
  requests are taken one after the other; the text response of status 200 for a
  playlist without videos writes nothing and deletes nothing.)
\<close>

theorem ingest_invalidates_rollup:
  assumes "ingest env now channelUrl st = Some (Ingested body, st')"
  shows "youtube_cache st' ''channelStatistics'' = None
     \<and> body_video body \<noteq> [] \<and> insertedCount body = length (body_video body)
     \<and> videoStatistics st' =
         videoStatistics st @ map (\<lambda>s. s\<lparr>recordedAt := now\<rparr>) (body_video body)
     \<and> (\<forall>env2 t. \<not> fails env2 CacheGet \<and> \<not> fails env2 SelectStatistics \<and> \<not> fails env2 CachePut
           \<longrightarrow> fst (getStatistics env2 t st') = StatisticsOk (channelStatistics st') ''database'')
     \<and> (\<forall>reqs. \<forall>r \<in> set (readRollups reqs st').
           r = StatisticsFailed \<or> (\<exists>source. r = StatisticsOk (channelStatistics st') source))"
proof -
  from ingest_success [OF assms] obtain cid th up f vw vc nm vids stats st2 where
    s: "sameStore st st2"
    and w: "ingestWrites env now cid th up f vw vc nm vids stats st2 = (Ingested body, st')"
    by blast
  note k = ingestWrites_success [OF w]
  have del: "youtube_cache st' ''channelStatistics'' = None" using k by simp
  have co: "coherent st'" using del by (simp add: coherent_def)
  have "videoStatistics st' =
      videoStatistics st @ map (\<lambda>s. s\<lparr>recordedAt := now\<rparr>) (body_video body)"
    using k s by (simp add: sameStore_def)
  moreover have "body_video body \<noteq> [] \<and> insertedCount body = length (body_video body)"
    using k by simp
  moreover have "fst (getStatistics env2 t st') = StatisticsOk (channelStatistics st') ''database''"
    if "\<not> fails env2 CacheGet \<and> \<not> fails env2 SelectStatistics \<and> \<not> fails env2 CachePut"
    for env2 t
    using that del by (simp add: getStatistics_def cacheGet_def)
  moreover have "r = StatisticsFailed \<or> (\<exists>source. r = StatisticsOk (channelStatistics st') source)"
    if "r \<in> set (readRollups reqs st')" for reqs r
    using readRollups_coherent [OF co that] .
  ultimately show ?thesis using del by blast
qed

theorem ingest_invalidates_rollup_example:
  "cacheGet (youtube_cache cachedState) ''channelStatistics'' 50 = Some [staleRollup]
   \<and> (case ingest smallUpstream 50 (Some ''@small'') cachedState of
         Some (Ingested body, st') \<Rightarrow>
           youtube_cache st' ''channelStatistics'' = None
           \<and> insertedCount body = 2 \<and> length (videoStatistics st') = 2
           \<and> fst (getStatistics smallUpstream 60 st')
               = StatisticsOk (channelStatistics st') ''database''
       | _ \<Rightarrow> False)"
proof -
  obtain body st' where
    i: "ingest smallUpstream 50 (Some ''@small'') cachedState = Some (Ingested body, st')"
    and n: "insertedCount body = 2"
    using small_ingest by blast
  have f: "\<not> fails smallUpstream CacheGet \<and> \<not> fails smallUpstream SelectStatistics
      \<and> \<not> fails smallUpstream CachePut"
    by (simp add: smallUpstream_def)
  have e: "videoStatistics cachedState = []"
    by (simp add: cachedState_def emptyState_def)
  have "cacheGet (youtube_cache cachedState) ''channelStatistics'' 50 = Some [staleRollup]"
    by (simp add: cacheGet_def cachedState_def)
  then show ?thesis
    using ingest_invalidates_rollup [OF i] n f e by (simp add: i)
qed

section \<open>Ingestions of the example channel\<close>

text \<open>
  What an ingestion of the channel \<open>@history\<close> leaves in the tables: from nothing stored,
  from an earlier ingestion, and when the statistics request is not answered (the
  channel and the video are written, the insert of no statistics throws, and the
  request ends with status 500; the failed batch is on the console).
\<close>

lemma history_pages:
  "servesPages (playlistItems (historyUpstream answer) ''UU7'') None [historyPage]"
  by (simp add: historyUpstream_def historyPage_def truthyString_def)

lemma history_playlist:
  "getPlaylistVideos (historyUpstream answer) ''UU7'' st =
     Some (Inr (map toVideoDetails (page_items historyPage)),
           st\<lparr>totalQuotaUsed := totalQuotaUsed st + 1\<rparr>)"
  using getPlaylistVideos_pages [OF history_pages, of answer st]
  by (simp add: QUOTA_COSTS_playlistItems_list_def)

lemma history_batches: "videoIdBatches 0 [''vidH''] = [[''vidH'']]"
  by (simp add: videoIdBatches.simps slice_def batchSize_def)

lemma history_env:
  "channelsForHandle (historyUpstream answer) ''@history'' = Data [historyChannel]"
  "fails (historyUpstream answer) op = False"
  "videosList (historyUpstream (Some f)) b
     = Data (Some (map (\<lambda>v. \<lparr>item_id = v, item_statistics = f\<rparr>) b))"
  "videosList (historyUpstream None) b = Thrown"
  by (simp_all add: historyUpstream_def)

lemmas history_run =
  ingest_def extractUsername_def startsWith_def truthyString_def truthyNumber_def
  getUploadsChannelDetail_def getChannelDetailsFromDB_def emptyState_def detailsOfItem_def
  historyChannel_def stringOrNull_def numberOrNull_def trackQuotaUsage_def
  QUOTA_COSTS_channels_list_def ingestDetails_def completeDetails_def ingestChannel_def
  historyPage_def toVideoDetails_def getVideoStatistics_eq history_batches
  batchStatistics_def answered_def threw_def batchError_def toVideoStatistics_def ingestWrites_def insertChannel_def
  insertVideos_def upsertVideo_def insertVideoStatistics_def Let_def recordedState_def
  historyVideo_def snapshotH_def history_playlist history_env

lemmas history_states =
  historyState_def onceRecorded_def tieState_def unrecordedState_def recordedState_def
  snapshotH_def firstCounts_def secondCounts_def historyVideo_def

lemma history_first_ingest:
  "map_option snd (ingest (historyUpstream (Some f)) t (Some ''@history'') emptyState)
     = Some (recordedState t t 3 [snapshotH f t])"
  by (simp add: history_run)

lemma history_next_ingest:
  "map_option snd
     (ingest (historyUpstream (Some f)) t (Some ''@history'') (recordedState c u q snaps))
     = Some (recordedState c t 3 (snaps @ [snapshotH f t]))"
  by (simp add: history_run)

lemma history_failed_ingest:
  "ingest (historyUpstream None) t (Some ''@history'') emptyState
     = Some (internalServerError, (recordedState t t 2 [])\<lparr>console := [batchError [''vidH'']]\<rparr>)"
  by (simp add: history_run)

section \<open>Properties of the ranking queries\<close>

text \<open>
  With unique channel ids the rows of the ranking queries have a closed form: for each
  video, one row for each of its statistics rows whose time is the latest of the video.
\<close>

lemma find_filter_Nil: "filter P xs = [] \<Longrightarrow> find P xs = None"
  by (induction xs) (auto split: if_splits)

lemma find_filter_Cons: "filter P xs = m # ms \<Longrightarrow> find P xs = Some m"
  by (induction xs) (auto split: if_splits)

lemma leftJoin_Nil [simp]: "leftJoin on [] rs = []"
  by (simp add: leftJoin_def)

lemma leftJoin_Cons:
  "leftJoin on (l # ls) rs =
     (case filter (on l) rs of [] \<Rightarrow> [(l, None)] | m # ms \<Rightarrow> map (\<lambda>r. (l, Some r)) (m # ms))
     @ leftJoin on ls rs"
  by (simp add: leftJoin_def)

lemma leftJoin_unique:
  "(\<And>l. l \<in> set ls \<Longrightarrow> length (filter (on l) rs) \<le> 1) \<Longrightarrow>
   leftJoin on ls rs = map (\<lambda>l. (l, find (on l) rs)) ls"
proof (induction ls)
  case Nil
  then show ?case by simp
next
  case (Cons l ls)
  have one: "(case filter (on l) rs of [] \<Rightarrow> [(l, None)]
                | m # ms \<Rightarrow> map (\<lambda>r. (l, Some r)) (m # ms)) = [(l, find (on l) rs)]"
  proof (cases "filter (on l) rs")
    case Nil
    then show ?thesis by (simp add: find_filter_Nil)
  next
    case (Cons m ms)
    with Cons.prems [of l] have "ms = []" by simp
    with Cons show ?thesis by (simp add: find_filter_Cons)
  qed
  have "leftJoin on ls rs = map (\<lambda>l. (l, find (on l) rs)) ls"
    using Cons.IH Cons.prems by simp
  then show ?case unfolding leftJoin_Cons one by simp
qed

lemma filter_unique_key:
  "distinct (map key xs) \<Longrightarrow> length (filter (\<lambda>x. key x = k) xs) \<le> 1"
proof (induction xs)
  case Nil
  then show ?case by simp
next
  case (Cons a xs)
  show ?case
  proof (cases "key a = k")
    case True
    with Cons.prems have "\<forall>x \<in> set xs. key x \<noteq> k" by (metis distinct.simps(2) imageI list.simps(9) set_map)
    then have "filter (\<lambda>x. key x = k) xs = []" by (simp add: filter_empty_conv)
    with True show ?thesis by simp
  next
    case False
    with Cons show ?thesis by simp
  qed
qed

lemma latest_keys: "map fst (latestVideoStatistics rows) = remdups (map videoId rows)"
  by (simp add: latestVideoStatistics_def comp_def)

lemma latest_member:
  "(l \<in> set (latestVideoStatistics rows)) =
     (fst l \<in> set (map videoId rows) \<and> snd l = latestRecordedAt rows (fst l))"
  by (cases l) (auto simp: latestVideoStatistics_def)

lemma isLatest_Some:
  "isLatest (Some s) (Some l) = (fst l = videoId s \<and> snd l = recordedAt s)"
  by (auto simp: isLatest_def sqlEq_def)

lemma isLatest_None [simp]: "isLatest None l = False" "isLatest s None = False"
  by (simp_all add: isLatest_def sqlEq_def split: option.splits)

lemma latest_join_unique:
  "length (filter (\<lambda>l. isLatest s (Some l)) (latestVideoStatistics rows)) \<le> 1"
proof (cases s)
  case None
  then show ?thesis by simp
next
  case (Some s')
  let ?keyed = "filter (\<lambda>l. fst l = videoId s') (latestVideoStatistics rows)"
  have e: "filter (\<lambda>l. isLatest (Some s') (Some l)) (latestVideoStatistics rows)
      = filter (\<lambda>l. snd l = recordedAt s') ?keyed"
    by (simp add: isLatest_Some conj_commute)
  have a: "length ?keyed \<le> 1"
    by (rule filter_unique_key) (simp add: latest_keys)
  have b: "length (filter (\<lambda>l. snd l = recordedAt s') ?keyed) \<le> length ?keyed"
    by (rule length_filter_le)
  show ?thesis unfolding Some e using a b by linarith
qed

lemma find_latest:
  "find (\<lambda>l. isLatest (Some s) (Some l)) (latestVideoStatistics rows) =
     (if videoId s \<in> set (map videoId rows) \<and> recordedAt s = latestRecordedAt rows (videoId s)
      then Some (videoId s, recordedAt s) else None)"
proof (cases "find (\<lambda>l. isLatest (Some s) (Some l)) (latestVideoStatistics rows)")
  case None
  then have "(videoId s, recordedAt s) \<notin> set (latestVideoStatistics rows)"
    by (auto simp: find_None_iff isLatest_Some)
  with None show ?thesis by (auto simp: latest_member)
next
  case (Some l)
  then have "l \<in> set (latestVideoStatistics rows)" and "isLatest (Some s) (Some l)"
    by (auto simp: find_Some_iff in_set_conv_nth)
  then have "l = (videoId s, recordedAt s)" and "l \<in> set (latestVideoStatistics rows)"
    by (auto simp: isLatest_Some prod_eq_iff)
  with Some show ?thesis by (auto simp: latest_member)
qed

lemma keep_latest_join:
  "filter (\<lambda>x. isLatest (snd x) (find (\<lambda>l. isLatest (snd x) (Some l)) (latestVideoStatistics stats)))
      (leftJoin (\<lambda>v s. video_id v = videoId s) vs stats)
   = concat (map (\<lambda>v. map (\<lambda>s. (v, Some s))
        (filter (\<lambda>s. video_id v = videoId s
                    \<and> videoId s \<in> set (map videoId stats)
                    \<and> recordedAt s = latestRecordedAt stats (videoId s)) stats)) vs)"
proof (induction vs)
  case Nil
  then show ?case by simp
next
  case (Cons v vs)
  let ?keep = "\<lambda>x. isLatest (snd x) (find (\<lambda>l. isLatest (snd x) (Some l)) (latestVideoStatistics stats))"
  let ?cond = "\<lambda>s. videoId s \<in> set (map videoId stats)
      \<and> recordedAt s = latestRecordedAt stats (videoId s)"
  have k: "?keep (v, Some s) = ?cond s" for s
    by (simp only: snd_conv find_latest) (simp add: isLatest_Some)
  have one: "filter ?keep (case filter (\<lambda>s. video_id v = videoId s) stats of
        [] \<Rightarrow> [(v, None)] | m # ms \<Rightarrow> map (\<lambda>r. (v, Some r)) (m # ms))
      = map (\<lambda>s. (v, Some s)) (filter (\<lambda>s. video_id v = videoId s \<and> ?cond s) stats)"
  proof (cases "filter (\<lambda>s. video_id v = videoId s) stats")
    case Nil
    then have "filter (\<lambda>s. video_id v = videoId s \<and> ?cond s) stats = []"
      by (auto simp: filter_empty_conv)
    with Nil show ?thesis by simp
  next
    case (Cons m ms)
    have "filter ?keep (map (\<lambda>r. (v, Some r)) (m # ms))
        = map (\<lambda>s. (v, Some s)) (filter ?cond (m # ms))"
      unfolding filter_map comp_def k by simp
    also have "filter ?cond (m # ms) = filter (\<lambda>s. video_id v = videoId s \<and> ?cond s) stats"
      unfolding Cons [symmetric] by (simp add: conj_commute)
    finally show ?thesis using Cons by simp
  qed
  show ?case
    unfolding leftJoin_Cons filter_append one Cons.IH by simp
qed

lemma rankingRows_closed:
  assumes "distinct (map channel_id (channels st))"
  shows "rankingRows st =
     concat (map (\<lambda>v. map (\<lambda>s. (((v, Some s), Some (videoId s, recordedAt s)),
                                find (\<lambda>c. channelId v = channel_id c) (channels st)))
        (filter (\<lambda>s. video_id v = videoId s
                    \<and> recordedAt s = latestRecordedAt (videoStatistics st) (videoId s))
           (videoStatistics st))) (videos st))"
proof -
  let ?stats = "videoStatistics st"
  let ?latest = "latestVideoStatistics ?stats"
  let ?j1 = "leftJoin (\<lambda>v s. video_id v = videoId s) (videos st) ?stats"
  let ?h = "\<lambda>x. (x, find (\<lambda>l. isLatest (snd x) (Some l)) ?latest)"
  let ?g = "\<lambda>y. (y, find (\<lambda>c. channelId (fst (fst y)) = channel_id c) (channels st))"
  have j2: "leftJoin (\<lambda>(v, s) l. isLatest s (Some l)) ?j1 ?latest = map ?h ?j1"
  proof -
    have "leftJoin (\<lambda>(v, s) l. isLatest s (Some l)) ?j1 ?latest
        = map (\<lambda>x. (x, find ((\<lambda>(v, s) l. isLatest s (Some l)) x) ?latest)) ?j1"
      by (rule leftJoin_unique) (use latest_join_unique in \<open>simp add: case_prod_unfold\<close>)
    then show ?thesis by (simp add: case_prod_unfold)
  qed
  have j3: "leftJoin (\<lambda>((v, s), l) c. channelId v = channel_id c) (map ?h ?j1) (channels st)
      = map ?g (map ?h ?j1)"
  proof -
    have u: "length (filter (\<lambda>c. channelId w = channel_id c) (channels st)) \<le> 1" for w
      using filter_unique_key [OF assms, of "channelId w"] by (simp add: eq_commute)
    have "leftJoin (\<lambda>((v, s), l) c. channelId v = channel_id c) (map ?h ?j1) (channels st)
        = map (\<lambda>y. (y, find ((\<lambda>((v, s), l) c. channelId v = channel_id c) y) (channels st)))
            (map ?h ?j1)"
      by (rule leftJoin_unique) (use u in \<open>simp add: case_prod_unfold\<close>)
    then show ?thesis by (simp add: case_prod_unfold)
  qed
  have "rankingRows st = filter (\<lambda>((vs, l), c). isLatest (snd vs) l) (map ?g (map ?h ?j1))"
    unfolding rankingRows_def j2 j3 ..
  also have "\<dots> = map (\<lambda>x. ?g (?h x))
      (filter (\<lambda>x. isLatest (snd x) (find (\<lambda>l. isLatest (snd x) (Some l)) ?latest)) ?j1)"
    by (simp add: filter_map comp_def case_prod_unfold)
  also have "\<dots> = map (\<lambda>x. ?g (?h x))
      (concat (map (\<lambda>v. map (\<lambda>s. (v, Some s))
        (filter (\<lambda>s. video_id v = videoId s \<and> videoId s \<in> set (map videoId ?stats)
                    \<and> recordedAt s = latestRecordedAt ?stats (videoId s)) ?stats)) (videos st)))"
    unfolding keep_latest_join ..
  also have "\<dots> = concat (map (\<lambda>v. map (\<lambda>s. (((v, Some s), Some (videoId s, recordedAt s)),
                                find (\<lambda>c. channelId v = channel_id c) (channels st)))
        (filter (\<lambda>s. video_id v = videoId s
                    \<and> recordedAt s = latestRecordedAt ?stats (videoId s)) ?stats)) (videos st))"
  proof -
    have f: "filter (\<lambda>s. video_id v = videoId s \<and> videoId s \<in> set (map videoId ?stats)
                    \<and> recordedAt s = latestRecordedAt ?stats (videoId s)) ?stats
        = filter (\<lambda>s. video_id v = videoId s
                    \<and> recordedAt s = latestRecordedAt ?stats (videoId s)) ?stats" for v
      by (rule filter_cong) auto
    have inner: "map (\<lambda>s. (((v, Some s),
                       find (\<lambda>l. isLatest (Some s) (Some l)) ?latest),
                     find (\<lambda>c. channelId v = channel_id c) (channels st)))
          (filter (\<lambda>s. video_id v = videoId s
                    \<and> recordedAt s = latestRecordedAt ?stats (videoId s)) ?stats)
        = map (\<lambda>s. (((v, Some s), Some (videoId s, recordedAt s)),
                     find (\<lambda>c. channelId v = channel_id c) (channels st)))
          (filter (\<lambda>s. video_id v = videoId s
                    \<and> recordedAt s = latestRecordedAt ?stats (videoId s)) ?stats)" for v
      by (rule map_cong) (auto simp: find_latest)
    show ?thesis
      unfolding map_concat f by (simp add: comp_def inner)
  qed
  finally show ?thesis .
qed

lemma foldr_max_ge: "t \<in> set ts \<Longrightarrow> t \<le> foldr max ts (0::nat)"
  by (induction ts) auto

lemma foldr_max_mem: "ts \<noteq> [] \<Longrightarrow> foldr max ts (0::nat) \<in> set ts"
proof (induction ts)
  case Nil
  then show ?case by simp
next
  case (Cons t ts)
  show ?case
  proof (cases "ts = []")
    case True
    then show ?thesis by simp
  next
    case False
    with Cons.IH show ?thesis by (auto simp: max_def)
  qed
qed

lemma latestRecordedAt_ge:
  "s \<in> set (snapshotsOf st x) \<Longrightarrow> recordedAt s \<le> latestRecordedAt (videoStatistics st) x"
  unfolding latestRecordedAt_def snapshotsOf_def by (rule foldr_max_ge) simp

lemma latestRecordedAt_attained:
  assumes "snapshotsOf st x \<noteq> []"
  shows "\<exists>s \<in> set (snapshotsOf st x). recordedAt s = latestRecordedAt (videoStatistics st) x"
proof -
  have "map recordedAt (snapshotsOf st x) \<noteq> []" using assms by simp
  from foldr_max_mem [OF this]
  have "latestRecordedAt (videoStatistics st) x \<in> set (map recordedAt (snapshotsOf st x))"
    by (simp add: latestRecordedAt_def snapshotsOf_def)
  then show ?thesis by auto
qed

lemma latest_entry:
  assumes "snapshotsOf st x \<noteq> []"
  shows "filter (\<lambda>l. fst l = x) (latestVideoStatistics (videoStatistics st))
     = [(x, latestRecordedAt (videoStatistics st) x)]"
proof -
  let ?latest = "latestVideoStatistics (videoStatistics st)"
  from assms obtain s where "s \<in> set (videoStatistics st)" "videoId s = x"
    by (auto simp: snapshotsOf_def filter_empty_conv)
  then have m: "(x, latestRecordedAt (videoStatistics st) x) \<in> set ?latest"
    by (auto simp: latest_member)
  have "length (filter (\<lambda>l. fst l = x) ?latest) \<le> 1"
    by (rule filter_unique_key) (simp add: latest_keys)
  moreover have "(x, latestRecordedAt (videoStatistics st) x) \<in> set (filter (\<lambda>l. fst l = x) ?latest)"
    using m by simp
  ultimately show ?thesis
    by (cases "filter (\<lambda>l. fst l = x) ?latest") auto
qed

lemma concat_single_key:
  "distinct (map key xs) \<Longrightarrow> v \<in> set xs \<Longrightarrow>
   concat (map (\<lambda>w. if key w = key v then f w else []) xs) = f v"
proof (induction xs)
  case Nil
  then show ?case by simp
next
  case (Cons a xs)
  show ?case
  proof (cases "a = v")
    case True
    with Cons.prems have "\<forall>w \<in> set xs. key w \<noteq> key v"
      by (metis distinct.simps(2) imageI list.simps(9) set_map)
    then have "concat (map (\<lambda>w. if key w = key v then f w else []) xs) = []"
      by (induction xs) auto
    with True show ?thesis by simp
  next
    case False
    with Cons.prems have "v \<in> set xs" "key a \<noteq> key v"
      by (auto simp: image_iff)
    with Cons show ?thesis by simp
  qed
qed

lemma selectedFor_closed:
  assumes "distinct (map channel_id (channels st))" "distinct (map video_id (videos st))"
    and "v \<in> set (videos st)"
  shows "selectedFor st (video_id v) =
     map (\<lambda>s. (((v, Some s), Some (videoId s, recordedAt s)),
                find (\<lambda>c. channelId v = channel_id c) (channels st)))
       (filter (\<lambda>s. recordedAt s = latestRecordedAt (videoStatistics st) (video_id v))
          (snapshotsOf st (video_id v)))"
proof -
  let ?L = "\<lambda>w. filter (\<lambda>s. video_id w = videoId s
      \<and> recordedAt s = latestRecordedAt (videoStatistics st) (videoId s)) (videoStatistics st)"
  let ?row = "\<lambda>w s. (((w, Some s), Some (videoId s, recordedAt s)),
                find (\<lambda>c. channelId w = channel_id c) (channels st))"
  have "selectedFor st (video_id v)
      = concat (map (\<lambda>w. filter (\<lambda>r. video_id (rowVideo r) = video_id v) (map (?row w) (?L w)))
          (videos st))"
    unfolding selectedFor_def rankingRows_closed [OF assms(1)]
    by (simp add: filter_concat comp_def)
  also have "\<dots> = concat (map (\<lambda>w. if video_id w = video_id v then map (?row w) (?L w) else [])
      (videos st))"
    by (rule arg_cong [where f = concat], rule map_cong)
      (auto simp: filter_map comp_def rowVideo_def)
  also have "\<dots> = map (?row v) (?L v)"
    by (rule concat_single_key [OF assms(2,3)])
  also have "?L v = filter (\<lambda>s. recordedAt s = latestRecordedAt (videoStatistics st) (video_id v))
      (snapshotsOf st (video_id v))"
    unfolding snapshotsOf_def filter_filter by (rule filter_cong) auto
  finally show ?thesis .
qed

lemma leftJoin_set:
  "(l, r) \<in> set (leftJoin on ls rs) \<Longrightarrow>
   l \<in> set ls \<and> (case r of None \<Rightarrow> True | Some r' \<Rightarrow> r' \<in> set rs \<and> on l r')"
proof (induction ls)
  case Nil
  then show ?case by simp
next
  case (Cons a ls)
  show ?case
  proof (cases "(l, r) \<in> set (leftJoin on ls rs)")
    case True
    with Cons.IH show ?thesis by simp
  next
    case False
    with Cons.prems have m: "(l, r) \<in> set (case filter (on a) rs of [] \<Rightarrow> [(a, None)]
        | m # ms \<Rightarrow> map (\<lambda>r. (a, Some r)) (m # ms))"
      by (simp add: leftJoin_Cons)
    show ?thesis
    proof (cases "filter (on a) rs")
      case Nil
      with m show ?thesis by simp
    next
      case (Cons m' ms)
      with m obtain r' where "l = a" "r = Some r'" "r' \<in> set (filter (on a) rs)"
        by auto
      then show ?thesis by simp
    qed
  qed
qed

lemma rankingRows_member:
  assumes "r \<in> set (rankingRows st)"
  shows "\<exists>s. rowSnapshot r = Some s \<and> rowVideo r \<in> set (videos st)
     \<and> s \<in> set (snapshotsOf st (video_id (rowVideo r)))
     \<and> recordedAt s = latestRecordedAt (videoStatistics st) (video_id (rowVideo r))"
proof -
  obtain v s l c where r: "r = (((v, s), l), c)" by (metis prod.collapse)
  from assms have w: "isLatest s l"
    and j3: "(((v, s), l), c) \<in> set (leftJoin (\<lambda>((v, s), l) c. channelId v = channel_id c)
          (leftJoin (\<lambda>(v, s) l. isLatest s (Some l))
             (leftJoin (\<lambda>v s. video_id v = videoId s) (videos st) (videoStatistics st))
             (latestVideoStatistics (videoStatistics st)))
          (channels st))"
    unfolding rankingRows_def r by simp_all
  from leftJoin_set [OF j3] have j2: "((v, s), l) \<in> set (leftJoin (\<lambda>(v, s) l. isLatest s (Some l))
             (leftJoin (\<lambda>v s. video_id v = videoId s) (videos st) (videoStatistics st))
             (latestVideoStatistics (videoStatistics st)))"
    by simp
  from w obtain s' l' where s: "s = Some s'" and l: "l = Some l'"
    by (cases s; cases l) simp_all
  from leftJoin_set [OF j2] l have j1: "(v, s) \<in> set (leftJoin (\<lambda>v s. video_id v = videoId s)
      (videos st) (videoStatistics st))"
    and lm: "l' \<in> set (latestVideoStatistics (videoStatistics st))"
    by simp_all
  from leftJoin_set [OF j1] s have v: "v \<in> set (videos st)"
    and sm: "s' \<in> set (videoStatistics st)" and vid: "video_id v = videoId s'"
    by simp_all
  from w s l have "fst l' = videoId s'" "snd l' = recordedAt s'"
    by (simp_all add: isLatest_Some)
  with lm have "recordedAt s' = latestRecordedAt (videoStatistics st) (videoId s')"
    by (simp add: latest_member)
  with v sm vid show ?thesis
    unfolding r s by (simp add: rowSnapshot_def rowVideo_def snapshotsOf_def)
qed

lemma those_map_member:
  "those (map f xs) = Some ys \<Longrightarrow> y \<in> set ys \<Longrightarrow> \<exists>x \<in> set xs. f x = Some y"
proof (induction xs arbitrary: ys)
  case Nil
  then show ?case by simp
next
  case (Cons x xs)
  then show ?case by (auto split: option.splits)
qed

lemma those_map_all:
  "those (map f xs) = Some ys \<Longrightarrow> x \<in> set xs \<Longrightarrow> \<exists>y \<in> set ys. f x = Some y"
proof (induction xs arbitrary: ys)
  case Nil
  then show ?case by simp
next
  case (Cons a xs)
  then show ?case by (auto split: option.splits)
qed

lemma those_map_length: "those (map f xs) = Some ys \<Longrightarrow> length ys = length xs"
  by (induction xs arbitrary: ys) (auto split: option.splits)

lemma foldl_keepFirst_subset: "set (foldl keepFirst acc rows) \<subseteq> set acc \<union> set rows"
proof (induction rows arbitrary: acc)
  case Nil
  then show ?case by simp
next
  case (Cons r rows)
  have "set (keepFirst acc r) \<subseteq> set acc \<union> {r}" by (auto simp: keepFirst_def)
  with Cons.IH [of "keepFirst acc r"] show ?case by auto
qed

lemma ranked_row_snapshot:
  assumes "x \<in> set (rankingRows st)"
  shows "\<exists>s \<in> set (snapshotsOf st (video_id (rowVideo x))).
       rowSnapshot x = Some s
       \<and> (\<forall>s' \<in> set (snapshotsOf st (video_id (rowVideo x))). recordedAt s' \<le> recordedAt s)"
proof -
  from rankingRows_member [OF assms] obtain s where
    s: "rowSnapshot x = Some s" "s \<in> set (snapshotsOf st (video_id (rowVideo x)))"
    "recordedAt s = latestRecordedAt (videoStatistics st) (video_id (rowVideo x))"
    by blast
  with latestRecordedAt_ge [of _ st "video_id (rowVideo x)"] show ?thesis by auto
qed

lemma topVideos_rows:
  assumes "topVideos env cast field limit st = Inr rows" and "r \<in> set rows"
  shows "\<exists>s \<in> set (snapshotsOf st (ranked_videoId r)).
       metric cast field (Some s) = Some (ranked_value r)
       \<and> (\<forall>s' \<in> set (snapshotsOf st (ranked_videoId r)). recordedAt s' \<le> recordedAt s)"
proof -
  from assms(1) obtain ys where
    ys: "those (map (selectRanked cast field) (rankingRows st)) = Some ys"
    and rows: "rows = take limit (sort_key (\<lambda>r. - ranked_value r) ys)"
    by (auto simp: topVideos_def split: if_splits option.splits)
  from assms(2) rows have "r \<in> set ys" by (auto dest: in_set_takeD)
  from those_map_member [OF ys this] obtain x where
    x: "x \<in> set (rankingRows st)" and sel: "selectRanked cast field x = Some r"
    by blast
  from sel have "ranked_videoId r = video_id (rowVideo x)"
    and "metric cast field (rowSnapshot x) = Some (ranked_value r)"
    by (auto simp: selectRanked_def rowVideo_def rowSnapshot_def split: prod.splits)
  with ranked_row_snapshot [OF x] show ?thesis by auto
qed

lemma topChannelViews_rows:
  assumes "topChannelViews env cast collate st = Inr rows" and "r \<in> set rows"
  shows "\<exists>s \<in> set (snapshotsOf st (top_videoId r)).
       metric cast ''viewCount'' (Some s) = Some (top_views r)
       \<and> (\<forall>s' \<in> set (snapshotsOf st (top_videoId r)). recordedAt s' \<le> recordedAt s)"
proof -
  from assms(1) obtain ys where
    ys: "those (map (selectChannelRanked cast) (rankingRows st)) = Some ys"
    and rows: "rows = foldl keepFirst []
        (sort_key (\<lambda>r. collate (top_channelId r)) (sort_key (\<lambda>r. - top_views r) ys))"
    by (auto simp: topChannelViews_def split: if_splits option.splits)
  from assms(2) rows have "r \<in> set ys"
    using foldl_keepFirst_subset
      [of "[]" "sort_key (\<lambda>r. collate (top_channelId r)) (sort_key (\<lambda>r. - top_views r) ys)"]
    by auto
  from those_map_member [OF ys this] obtain x where
    x: "x \<in> set (rankingRows st)" and sel: "selectChannelRanked cast x = Some r"
    by blast
  from sel have "top_videoId r = video_id (rowVideo x)"
    and "metric cast ''viewCount'' (rowSnapshot x) = Some (top_views r)"
    by (auto simp: selectChannelRanked_def rowVideo_def rowSnapshot_def split: prod.splits)
  with ranked_row_snapshot [OF x] show ?thesis by auto
qed

lemma topVideos_complete:
  assumes "distinct (map channel_id (channels st))"
    and "topVideos env cast field limit st = Inr rows" and "length (rankingRows st) \<le> limit"
    and "v \<in> set (videos st)" and "snapshotsOf st (video_id v) \<noteq> []"
  shows "video_id v \<in> set (map ranked_videoId rows)"
proof -
  from assms(2) obtain ys where
    ys: "those (map (selectRanked cast field) (rankingRows st)) = Some ys"
    and rows: "rows = take limit (sort_key (\<lambda>r. - ranked_value r) ys)"
    by (auto simp: topVideos_def split: if_splits option.splits)
  have "length ys \<le> limit" using those_map_length [OF ys] assms(3) by simp
  then have all: "set rows = set ys" unfolding rows by simp
  from latestRecordedAt_attained [OF assms(5)] obtain s where
    s: "s \<in> set (videoStatistics st)" "videoId s = video_id v"
    "recordedAt s = latestRecordedAt (videoStatistics st) (video_id v)"
    by (auto simp: snapshotsOf_def)
  let ?x = "(((v, Some s), Some (videoId s, recordedAt s)),
      find (\<lambda>c. channelId v = channel_id c) (channels st))"
  have "?x \<in> set (map (\<lambda>s. (((v, Some s), Some (videoId s, recordedAt s)),
                                find (\<lambda>c. channelId v = channel_id c) (channels st)))
        (filter (\<lambda>s. video_id v = videoId s
                    \<and> recordedAt s = latestRecordedAt (videoStatistics st) (videoId s))
           (videoStatistics st)))"
    unfolding set_map using s by (intro image_eqI [where x = s]) simp_all
  then have "?x \<in> set (rankingRows st)"
    unfolding rankingRows_closed [OF assms(1)] set_concat using assms(4) by force
  from those_map_all [OF ys this] obtain y where
    y: "y \<in> set ys" "selectRanked cast field ?x = Some y"
    by blast
  then have "ranked_videoId y = video_id v"
    by (auto simp: selectRanked_def)
  with y(1) all show ?thesis by force
qed

lemma parse_views:
  "decimalInteger ''7'' = Some 7" "decimalInteger ''9'' = Some 9"
  "decimalInteger ''300'' = Some 300" "decimalInteger ''100'' = Some 100"
  by (simp_all add: decimalInteger_def parseInt_def isWhiteSpace_def startsWith_def
      digitValue_def mathInt_def)

text \<open>
  C4, as stated, fails when two snapshots of an item share the latest time. Two
  ingestions of a channel at the same time 5 leave two such rows of its video; both are
  selected, and the video is listed twice.
\<close>

theorem top_views_lists_tied_item_twice:
  "map_option snd
     (ingest (historyUpstream (Some [(''viewCount'', ''7'')])) 5 (Some ''@history'') emptyState)
     = Some (recordedState 5 5 3 [snapshotH [(''viewCount'', ''7'')] 5])
   \<and> map_option snd
     (ingest (historyUpstream (Some [(''viewCount'', ''9'')])) 5 (Some ''@history'')
        (recordedState 5 5 3 [snapshotH [(''viewCount'', ''7'')] 5]))
     = Some tieState
   \<and> map recordedAt (snapshotsOf tieState ''vidH'') = [5, 5]
   \<and> length (selectedFor tieState ''vidH'') = 2
   \<and> map (\<lambda>r. (ranked_videoId r, ranked_value r))
         (case topViews quietUpstream decimalInteger 5 tieState of Inl e \<Rightarrow> [] | Inr rows \<Rightarrow> rows)
       = [(''vidH'', 9), (''vidH'', 7)]"
proof -
  have "map_option snd
     (ingest (historyUpstream (Some [(''viewCount'', ''9'')])) 5 (Some ''@history'')
        (recordedState 5 5 3 [snapshotH [(''viewCount'', ''7'')] 5]))
     = Some tieState"
    unfolding history_next_ingest by (simp add: tieState_def)
  moreover have "map recordedAt (snapshotsOf tieState ''vidH'') = [5, 5]
   \<and> length (selectedFor tieState ''vidH'') = 2
   \<and> map (\<lambda>r. (ranked_videoId r, ranked_value r))
         (case topViews quietUpstream decimalInteger 5 tieState of Inl e \<Rightarrow> [] | Inr rows \<Rightarrow> rows)
       = [(''vidH'', 9), (''vidH'', 7)]"
    by (simp add: history_states snapshotsOf_def
        selectedFor_def rankingRows_def leftJoin_def latestVideoStatistics_def
        latestRecordedAt_def isLatest_def sqlEq_def rowVideo_def topViews_def topVideos_def
        quietUpstream_def selectRanked_def metric_def parse_views)
  ultimately show ?thesis using history_first_ingest [of "[(''viewCount'', ''7'')]" 5] by simp
qed

text \<open>
  C4, amended. With unique video and channel ids, for every item with at least one
  snapshot the latest-snapshot subquery has exactly one row, the item with the maximum
  of its \<open>recordedAt\<close>; the ranking queries select for the item exactly its snapshots of
  that time, at least one, each with a \<open>recordedAt\<close> greater than or equal to that of
  every snapshot of the item; and they select exactly one row when no two snapshots of
  the item have the same \<open>recordedAt\<close>.
\<close>

theorem latest_snapshot_resolution:
  assumes "distinct (map channel_id (channels st))" "distinct (map video_id (videos st))"
    and "v \<in> set (videos st)" and "snapshotsOf st (video_id v) \<noteq> []"
  shows "filter (\<lambda>l. fst l = video_id v) (latestVideoStatistics (videoStatistics st))
       = [(video_id v, latestRecordedAt (videoStatistics st) (video_id v))]
     \<and> map rowSnapshot (selectedFor st (video_id v))
       = map Some (filter (\<lambda>s. recordedAt s = latestRecordedAt (videoStatistics st) (video_id v))
           (snapshotsOf st (video_id v)))
     \<and> selectedFor st (video_id v) \<noteq> []
     \<and> (\<forall>r \<in> set (selectedFor st (video_id v)).
           \<exists>s. rowSnapshot r = Some s \<and> s \<in> set (snapshotsOf st (video_id v))
             \<and> (\<forall>s' \<in> set (snapshotsOf st (video_id v)). recordedAt s' \<le> recordedAt s))
     \<and> (distinct (map recordedAt (snapshotsOf st (video_id v)))
          \<longrightarrow> length (selectedFor st (video_id v)) = 1)"
proof -
  let ?x = "video_id v"
  let ?t = "latestRecordedAt (videoStatistics st) ?x"
  let ?top = "filter (\<lambda>s. recordedAt s = ?t) (snapshotsOf st ?x)"
  note sel = selectedFor_closed [OF assms(1-3)]
  have snap: "map rowSnapshot (selectedFor st ?x) = map Some ?top"
    unfolding sel by (simp add: comp_def rowSnapshot_def)
  have ne: "?top \<noteq> []"
    using latestRecordedAt_attained [OF assms(4)] by (auto simp: filter_empty_conv)
  have len: "length (selectedFor st ?x) = length ?top"
    unfolding sel by simp
  have max: "\<exists>s. rowSnapshot r = Some s \<and> s \<in> set (snapshotsOf st ?x)
      \<and> (\<forall>s' \<in> set (snapshotsOf st ?x). recordedAt s' \<le> recordedAt s)"
    if "r \<in> set (selectedFor st ?x)" for r
  proof -
    from that obtain s where s: "s \<in> set ?top" and r: "rowSnapshot r = Some s"
      unfolding sel by (auto simp: rowSnapshot_def)
    then have "recordedAt s = ?t" "s \<in> set (snapshotsOf st ?x)" by simp_all
    with r latestRecordedAt_ge [of _ st ?x] show ?thesis by auto
  qed
  have one: "length (selectedFor st ?x) = 1" if "distinct (map recordedAt (snapshotsOf st ?x))"
  proof -
    have "length ?top \<le> 1" by (rule filter_unique_key [OF that])
    moreover have "length ?top \<noteq> 0" using ne by simp
    ultimately show ?thesis unfolding len by linarith
  qed
  from latest_entry [OF assms(4)] snap ne len max one show ?thesis by auto
qed

theorem latest_snapshot_resolution_example:
  "distinct (map channel_id (channels historyState))
   \<and> distinct (map video_id (videos historyState))
   \<and> historyVideo 1 3 \<in> set (videos historyState)
   \<and> map recordedAt (snapshotsOf historyState (video_id (historyVideo 1 3))) = [1, 3]
   \<and> latestVideoStatistics (videoStatistics historyState) = [(''vidH'', 3)]
   \<and> length (selectedFor historyState (video_id (historyVideo 1 3))) = 1
   \<and> map (\<lambda>r. map_option recordedAt (rowSnapshot r)) (selectedFor historyState ''vidH'')
       = [Some 3]"
proof -
  have h: "distinct (map channel_id (channels historyState))"
    "distinct (map video_id (videos historyState))"
    "historyVideo 1 3 \<in> set (videos historyState)"
    by (simp_all add: history_states)
  have s: "snapshotsOf historyState (video_id (historyVideo 1 3)) =
      [\<lparr>videoId = ''vidH'',
        statistics = [(''viewCount'', ''100''), (''likeCount'', ''10''), (''commentCount'', ''1'')],
        recordedAt = 1\<rparr>,
       \<lparr>videoId = ''vidH'',
        statistics = [(''viewCount'', ''300''), (''likeCount'', ''30''), (''commentCount'', ''3'')],
        recordedAt = 3\<rparr>]"
    by (simp add: snapshotsOf_def history_states)
  have t: "latestRecordedAt (videoStatistics historyState) (video_id (historyVideo 1 3)) = 3"
    by (simp add: latestRecordedAt_def history_states)
  have l: "latestVideoStatistics (videoStatistics historyState) = [(''vidH'', 3)]"
    by (simp add: latestVideoStatistics_def latestRecordedAt_def history_states)
  have v: "video_id (historyVideo 1 3) = ''vidH''" by (simp add: historyVideo_def)
  have ne: "snapshotsOf historyState (video_id (historyVideo 1 3)) \<noteq> []" using s by simp
  have d: "distinct (map recordedAt (snapshotsOf historyState (video_id (historyVideo 1 3))))"
    unfolding s by simp
  from latest_snapshot_resolution [OF h ne]
  have a: "map rowSnapshot (selectedFor historyState (video_id (historyVideo 1 3)))
      = map Some (filter (\<lambda>s. recordedAt s = 3) (snapshotsOf historyState (video_id (historyVideo 1 3))))"
    and b: "length (selectedFor historyState (video_id (historyVideo 1 3))) = 1"
    unfolding t using d by blast+
  have "map (\<lambda>r. map_option recordedAt (rowSnapshot r)) (selectedFor historyState (video_id (historyVideo 1 3)))
      = map (map_option recordedAt) (map rowSnapshot (selectedFor historyState (video_id (historyVideo 1 3))))"
    by simp
  also have "\<dots> = [Some 3]" unfolding a s by simp
  finally have c: "map (\<lambda>r. map_option recordedAt (rowSnapshot r)) (selectedFor historyState ''vidH'')
      = [Some 3]"
    unfolding v .
  from h s l b c show ?thesis by simp
qed

text \<open>
  C3, as stated, fails: a stored item without any snapshot is left out by the three
  top-N queries and by the query of the top item per channel. An ingestion whose
  statistics request is not answered leaves such an item.
\<close>

theorem ranking_omits_item_without_snapshots:
  "ingest (historyUpstream None) 1 (Some ''@history'') emptyState
     = Some (internalServerError, unrecordedState)
   \<and> map video_id (videos unrecordedState) = [''vidH'']
   \<and> snapshotsOf unrecordedState ''vidH'' = []
   \<and> topViews quietUpstream decimalInteger 5 unrecordedState = Inr []
   \<and> topLikes quietUpstream decimalInteger 5 unrecordedState = Inr []
   \<and> topComments quietUpstream decimalInteger 5 unrecordedState = Inr []
   \<and> topChannelViews quietUpstream decimalInteger length unrecordedState = Inr []"
proof -
  have "ingest (historyUpstream None) 1 (Some ''@history'') emptyState
     = Some (internalServerError, unrecordedState)"
    unfolding history_failed_ingest by (simp add: unrecordedState_def)
  moreover have "map video_id (videos unrecordedState) = [''vidH'']
   \<and> snapshotsOf unrecordedState ''vidH'' = []
   \<and> topViews quietUpstream decimalInteger 5 unrecordedState = Inr []
   \<and> topLikes quietUpstream decimalInteger 5 unrecordedState = Inr []
   \<and> topComments quietUpstream decimalInteger 5 unrecordedState = Inr []
   \<and> topChannelViews quietUpstream decimalInteger length unrecordedState = Inr []"
    by (simp add: history_states snapshotsOf_def rankingRows_def leftJoin_def
        latestVideoStatistics_def isLatest_def sqlEq_def topViews_def topLikes_def
        topComments_def topVideos_def topChannelViews_def quietUpstream_def)
  ultimately show ?thesis by simp
qed

text \<open>
  C3, amended. The ranking queries (top views, likes and comments are \<open>topVideos\<close> with
  the field \<open>viewCount\<close>, \<open>likeCount\<close>, \<open>commentCount\<close>) report only items that have a
  snapshot: every reported row belongs to an item with at least one snapshot and
  carries the value of a latest snapshot of that item, which is zero when that snapshot
  lacks the field. An item without snapshots has no row. With unique channel ids and a
  limit that does not cut the result, every item with a snapshot is reported.
\<close>

theorem ranking_reports_items_with_snapshots:
  "(topVideos env cast field limit st = Inr rows \<longrightarrow>
      (\<forall>r \<in> set rows. \<exists>s \<in> set (snapshotsOf st (ranked_videoId r)).
          metric cast field (Some s) = Some (ranked_value r)
          \<and> (\<forall>s' \<in> set (snapshotsOf st (ranked_videoId r)). recordedAt s' \<le> recordedAt s)))
   \<and> (topChannelViews env cast collate st = Inr crows \<longrightarrow>
      (\<forall>r \<in> set crows. \<exists>s \<in> set (snapshotsOf st (top_videoId r)).
          metric cast ''viewCount'' (Some s) = Some (top_views r)
          \<and> (\<forall>s' \<in> set (snapshotsOf st (top_videoId r)). recordedAt s' \<le> recordedAt s)))
   \<and> (\<forall>s. map_of (statistics s) field = None \<longrightarrow> metric cast field (Some s) = Some 0)
   \<and> (distinct (map channel_id (channels st)) \<and> topVideos env cast field limit st = Inr rows
        \<and> length (rankingRows st) \<le> limit \<longrightarrow>
      (\<forall>v \<in> set (videos st). snapshotsOf st (video_id v) \<noteq> []
          \<longrightarrow> video_id v \<in> set (map ranked_videoId rows)))"
proof (intro conjI impI ballI allI)
  fix r assume "topVideos env cast field limit st = Inr rows" "r \<in> set rows"
  then show "\<exists>s \<in> set (snapshotsOf st (ranked_videoId r)).
      metric cast field (Some s) = Some (ranked_value r)
      \<and> (\<forall>s' \<in> set (snapshotsOf st (ranked_videoId r)). recordedAt s' \<le> recordedAt s)"
    by (rule topVideos_rows)
next
  fix r assume "topChannelViews env cast collate st = Inr crows" "r \<in> set crows"
  then show "\<exists>s \<in> set (snapshotsOf st (top_videoId r)).
      metric cast ''viewCount'' (Some s) = Some (top_views r)
      \<and> (\<forall>s' \<in> set (snapshotsOf st (top_videoId r)). recordedAt s' \<le> recordedAt s)"
    by (rule topChannelViews_rows)
next
  fix s :: VideoStatistics assume "map_of (statistics s) field = None"
  then show "metric cast field (Some s) = Some 0" by (simp add: metric_def)
next
  fix v
  assume a: "distinct (map channel_id (channels st)) \<and> topVideos env cast field limit st = Inr rows
      \<and> length (rankingRows st) \<le> limit"
    and v: "v \<in> set (videos st)" "snapshotsOf st (video_id v) \<noteq> []"
  from a have "distinct (map channel_id (channels st))"
    "topVideos env cast field limit st = Inr rows" "length (rankingRows st) \<le> limit"
    by simp_all
  from topVideos_complete [OF this v] show "video_id v \<in> set (map ranked_videoId rows)" .
qed

theorem ranking_reports_items_with_snapshots_example:
  "topVideos quietUpstream decimalInteger ''viewCount'' 5 historyState
     = Inr [\<lparr>ranked_videoId = ''vidH'', ranked_channelName = Some ''@history'',
             ranked_title = ''recorded twice'', ranked_value = 300\<rparr>]
   \<and> (\<exists>s \<in> set (snapshotsOf historyState ''vidH'').
         metric decimalInteger ''viewCount'' (Some s) = Some 300
         \<and> list_all (\<lambda>s'. recordedAt s' \<le> recordedAt s) (snapshotsOf historyState ''vidH''))
   \<and> map ranked_value
        (case topLikes quietUpstream decimalInteger 5 tieState of Inl e \<Rightarrow> [] | Inr rows \<Rightarrow> rows)
       = [0, 0]"
proof -
  let ?row = "\<lparr>ranked_videoId = ''vidH'', ranked_channelName = Some ''@history'',
      ranked_title = ''recorded twice'', ranked_value = 300\<rparr>"
  have t: "topVideos quietUpstream decimalInteger ''viewCount'' 5 historyState = Inr [?row]"
    by (simp add: history_states rankingRows_def leftJoin_def
        latestVideoStatistics_def latestRecordedAt_def isLatest_def sqlEq_def topVideos_def
        quietUpstream_def selectRanked_def metric_def parse_views)
  have z: "map ranked_value
      (case topLikes quietUpstream decimalInteger 5 tieState of Inl e \<Rightarrow> [] | Inr rows \<Rightarrow> rows)
      = [0, 0]"
    by (simp add: history_states rankingRows_def
        leftJoin_def latestVideoStatistics_def latestRecordedAt_def isLatest_def sqlEq_def
        topLikes_def topVideos_def quietUpstream_def selectRanked_def metric_def)
  have "\<exists>s \<in> set (snapshotsOf historyState ''vidH'').
      metric decimalInteger ''viewCount'' (Some s) = Some 300
      \<and> (\<forall>s' \<in> set (snapshotsOf historyState ''vidH''). recordedAt s' \<le> recordedAt s)"
    using ranking_reports_items_with_snapshots
      [of quietUpstream decimalInteger "''viewCount''" 5 historyState "[?row]"] t
    by simp
  with t z show ?thesis by (simp add: list_all_iff)
qed

section \<open>The rollup over a history of snapshots\<close>

lemma parse_examples:
  "parseInt ''10'' 0 = Some 10" "parseInt ''30'' 0 = Some 30"
  "parseInt ''1'' 0 = Some 1" "parseInt ''3'' 0 = Some 3"
  by (simp_all add: parseInt_def isWhiteSpace_def startsWith_def digitValue_def mathInt_def)

text \<open>
  C1. After a channel was ingested at time 1 (10 likes and one comment on its video) and
  again at time 3 (30 likes, 3 comments), the rollup answers the likes and comments of
  both snapshots added up, 40 and 4, where the latest snapshot alone says 30 and 3: the
  join of the rollup query has no condition on the time of a statistics row, unlike the
  ranking queries.
\<close>

theorem statistics_sums_every_snapshot:
  "map_option snd
     (ingest (historyUpstream (Some firstCounts)) 1 (Some ''@history'') emptyState)
     = Some onceRecorded
   \<and> map_option snd
     (ingest (historyUpstream (Some secondCounts)) 3 (Some ''@history'') onceRecorded)
     = Some historyState
   \<and> latestVideoStatistics (videoStatistics historyState) = [(''vidH'', 3)]
   \<and> map (\<lambda>s. (statValue (statistics s) ''likeCount'', statValue (statistics s) ''commentCount''))
         (filter (\<lambda>s. recordedAt s = 3) (videoStatistics historyState)) = [(30, 3)]
   \<and> map (\<lambda>r. (stats_channelId r, totalLikes r, totalComments r)) (channelStatistics historyState)
       = [(''UC7'', 40, 4)]
   \<and> fst (getStatistics (historyUpstream None) 4 historyState)
       = StatisticsOk (channelStatistics historyState) ''database''"
proof -
  have "map_option snd
     (ingest (historyUpstream (Some firstCounts)) 1 (Some ''@history'') emptyState)
     = Some onceRecorded"
    unfolding history_first_ingest by (simp add: onceRecorded_def)
  moreover have "map_option snd
     (ingest (historyUpstream (Some secondCounts)) 3 (Some ''@history'') onceRecorded)
     = Some historyState"
    unfolding onceRecorded_def history_next_ingest by (simp add: historyState_def)
  moreover have "latestVideoStatistics (videoStatistics historyState) = [(''vidH'', 3)]
   \<and> map (\<lambda>s. (statValue (statistics s) ''likeCount'', statValue (statistics s) ''commentCount''))
         (filter (\<lambda>s. recordedAt s = 3) (videoStatistics historyState)) = [(30, 3)]
   \<and> map (\<lambda>r. (stats_channelId r, totalLikes r, totalComments r)) (channelStatistics historyState)
       = [(''UC7'', 40, 4)]"
    by (simp add: history_states latestVideoStatistics_def latestRecordedAt_def
        statValue_def orZero_def parse_examples channelStatistics_def allData_def leftJoin_def
        addRow_def Let_def)
  moreover have "fst (getStatistics (historyUpstream None) 4 historyState)
       = StatisticsOk (channelStatistics historyState) ''database''"
    by (simp add: getStatistics_def cacheGet_def history_env historyState_def recordedState_def)
  ultimately show ?thesis by simp
qed

end
